theory Spec2Isabelle
  imports Complex_Main
begin

section \<open>SuperCalc: a shallow embedding of \<^verbatim>\<open>src/main.cpp\<close>\<close>

text \<open>
  The calculator reads one line of text, rewrites function calls into postfix form
  (\<^verbatim>\<open>preprocessFuncCalls\<close>), turns the token stream into reverse Polish notation with
  the shunting-yard algorithm (\<^verbatim>\<open>toRPN\<close>) and evaluates the node sequence on a stack
  against the variable environment (\<^verbatim>\<open>evalRPN\<close>).

  Every \<^verbatim>\<open>throw runtime_error(...)\<close> of the source is a value of the type \<open>error\<close>;
  a function that can throw returns \<open>error + 'a\<close>. The environment is passed in and
  returned explicitly.
\<close>

subsection \<open>The platform's \<^verbatim>\<open>double\<close>\<close>

text \<open>
  The program computes with the C++ type \<^verbatim>\<open>double\<close> and the functions of
  \<^verbatim>\<open><cmath>\<close> and \<^verbatim>\<open><cstdlib>\<close>. They are not code of this program, so the embedding
  takes the type as a type parameter \<open>'d\<close> and the operations as a record:
  \<^item> \<open>strtod\<close>: the value \<^verbatim>\<open>strtod(text, nullptr)\<close> of a literal;
  \<^item> \<open>dzero\<close>: the literal \<^verbatim>\<open>0.0\<close>, also the value of a value-initialised \<^verbatim>\<open>double\<close>;
  \<^item> \<open>deq\<close>: the comparison \<^verbatim>\<open>==\<close>;
  \<^item> \<open>dneg\<close>, \<open>dadd\<close>, \<open>dsub\<close>, \<open>dmul\<close>, \<open>ddiv\<close>: unary \<^verbatim>\<open>-\<close> and binary
    \<^verbatim>\<open>+ - * /\<close>;
  \<^item> \<open>cmath\<close>: the one-argument functions of \<^verbatim>\<open><cmath>\<close>, by their C names;
  \<^item> \<open>cpow\<close>: \<^verbatim>\<open>pow\<close>.
\<close>

record 'd double_ops =
  strtod :: "string \<Rightarrow> 'd"
  dzero :: "'d"
  deq :: "'d \<Rightarrow> 'd \<Rightarrow> bool"
  dneg :: "'d \<Rightarrow> 'd"
  dadd :: "'d \<Rightarrow> 'd \<Rightarrow> 'd"
  dsub :: "'d \<Rightarrow> 'd \<Rightarrow> 'd"
  dmul :: "'d \<Rightarrow> 'd \<Rightarrow> 'd"
  ddiv :: "'d \<Rightarrow> 'd \<Rightarrow> 'd"
  cmath :: "string \<Rightarrow> 'd \<Rightarrow> 'd"
  cpow :: "'d \<Rightarrow> 'd \<Rightarrow> 'd"

subsection \<open>Errors\<close>

text \<open>
  One constructor for each \<^verbatim>\<open>throw\<close> of the source, in the order of the source:
  \<^item> \<open>LexError c\<close>: \<^verbatim>\<open>"Simbolo invalido: "+c\<close> (\<^verbatim>\<open>Lexer::next\<close>);
  \<^item> \<open>MisplacedSeparator\<close>: \<^verbatim>\<open>"Coma fuera de contexto"\<close> (\<^verbatim>\<open>toRPN\<close>);
  \<^item> \<open>UnbalancedParens\<close>: \<^verbatim>\<open>"Parentesis desbalanceados"\<close> (\<^verbatim>\<open>toRPN\<close>, twice);
  \<^item> \<open>UnexpectedToken\<close>: \<^verbatim>\<open>"Token inesperado"\<close> (\<^verbatim>\<open>toRPN\<close>);
  \<^item> \<open>OutOfRange\<close>: the \<^verbatim>\<open>std::out_of_range\<close> of \<^verbatim>\<open>OP.at(sym)\<close> (\<^verbatim>\<open>toRPN\<close>);
  \<^item> \<open>UnknownOperator op\<close>: \<^verbatim>\<open>"Operador desconocido: "+op\<close> (\<^verbatim>\<open>applyOp\<close>);
  \<^item> \<open>DivisionByZero\<close>: \<^verbatim>\<open>"Division por cero"\<close> (\<^verbatim>\<open>applyOp\<close>);
  \<^item> \<open>InvalidAssignment\<close>: \<^verbatim>\<open>"Asignacion invalida. Usa: nombre = expresion"\<close>;
  \<^item> \<open>MissingArgument f\<close>: \<^verbatim>\<open>"Falta argumento para funcion "+f\<close> and
    \<^verbatim>\<open>"Faltan argumentos para funcion "+f\<close>;
  \<^item> \<open>UndefinedVariable x\<close>: \<^verbatim>\<open>"Variable no definida: "+x\<close>;
  \<^item> \<open>StackUnderflow op\<close>: \<^verbatim>\<open>"Pila insuficiente (operador "+op+")"\<close>;
  \<^item> \<open>InvalidAssignedExpression\<close>: \<^verbatim>\<open>"Expresion invalida en asignacion"\<close>;
  \<^item> \<open>InvalidExpression\<close>: \<^verbatim>\<open>"Expresion invalida"\<close>;
  \<^item> \<open>UnbalancedCallParens\<close>: \<^verbatim>\<open>"Parentesis desbalanceados en llamada a funcion"\<close>
    (\<^verbatim>\<open>preprocessFuncCalls\<close>).
\<close>

datatype error =
    LexError char
  | MisplacedSeparator
  | UnbalancedParens
  | UnexpectedToken
  | OutOfRange
  | UnknownOperator string
  | DivisionByZero
  | InvalidAssignment
  | MissingArgument string
  | UndefinedVariable string
  | StackUnderflow string
  | InvalidAssignedExpression
  | InvalidExpression
  | UnbalancedCallParens

subsection \<open>Character classes\<close>

text \<open>
  The functions of \<^verbatim>\<open><cctype>\<close> in the "C" locale (the program never calls
  \<^verbatim>\<open>setlocale\<close>), on the byte read as \<^verbatim>\<open>unsigned char\<close>.
\<close>

definition isspace :: "char \<Rightarrow> bool" where
  "isspace c \<longleftrightarrow> (of_char c :: nat) = 32 \<or> (9 \<le> (of_char c :: nat) \<and> (of_char c :: nat) \<le> 13)"

definition isdigit :: "char \<Rightarrow> bool" where
  "isdigit c \<longleftrightarrow> 48 \<le> (of_char c :: nat) \<and> (of_char c :: nat) \<le> 57"

definition isalpha :: "char \<Rightarrow> bool" where
  "isalpha c \<longleftrightarrow> (65 \<le> (of_char c :: nat) \<and> (of_char c :: nat) \<le> 90)
     \<or> (97 \<le> (of_char c :: nat) \<and> (of_char c :: nat) \<le> 122)"

definition isalnum :: "char \<Rightarrow> bool" where
  "isalnum c \<longleftrightarrow> isalpha c \<or> isdigit c"

subsection \<open>Tokens and the lexer\<close>

datatype TokType =
  Number | Ident | LParen | RParen | Comma | Plus | Minus | Star | Slash | Caret | Assign | End

record 'd Token =
  t :: TokType
  "value" :: 'd
  "text" :: string

definition mkToken :: "TokType \<Rightarrow> 'd \<Rightarrow> string \<Rightarrow> 'd Token" where
  "mkToken ty v s = \<lparr>t = ty, value = v, text = s\<rparr>"

definition isIdentStart :: "char \<Rightarrow> bool" where
  "isIdentStart c \<longleftrightarrow> isalpha c \<or> c = CHR ''_''"

definition isIdentChar :: "char \<Rightarrow> bool" where
  "isIdentChar c \<longleftrightarrow> isalnum c \<or> c = CHR ''_''"

text \<open>
  The lexer's only mutable state is the cursor \<^verbatim>\<open>i\<close> into the constant string
  \<^verbatim>\<open>s\<close>; it never moves back and every read is at or after it. The embedding keeps
  the unread part \<^verbatim>\<open>s[i..n)\<close>: advancing the cursor drops characters from its front.

  \<open>scanMantissa seenDot cs\<close> is the loop of line 38: it returns the characters consumed
  and the rest.
\<close>

fun scanMantissa :: "bool \<Rightarrow> string \<Rightarrow> string \<times> string" where
  "scanMantissa seenDot [] = ([], [])"
| "scanMantissa seenDot (c # cs) =
     (if isdigit c \<or> (\<not> seenDot \<and> c = CHR ''.'')
      then (case scanMantissa (if c = CHR ''.'' then True else seenDot) cs of
              (m, r) \<Rightarrow> (c # m, r))
      else ([], c # cs))"

text \<open>
  \<open>scanExponent cs\<close> is the block of lines 40 to 44, with \<open>cs\<close> the text at the cursor
  after the mantissa: the exponent consumed (empty when the marker is not accepted) and
  the rest.
\<close>

definition scanExponent :: "string \<Rightarrow> string \<times> string" where
  "scanExponent cs =
     (case cs of
        [] \<Rightarrow> ([], cs)
      | c # r1 \<Rightarrow>
          if c = CHR ''e'' \<or> c = CHR ''E'' then
            (case (case r1 of
                     [] \<Rightarrow> ([], r1)
                   | c' # r2 \<Rightarrow> if c' = CHR ''+'' \<or> c' = CHR ''-'' then ([c'], r2) else ([], r1)) of
               (sg, r2) \<Rightarrow>
                 if takeWhile isdigit r2 \<noteq> []
                 then (c # sg @ takeWhile isdigit r2, dropWhile isdigit r2)
                 else ([], cs))
          else ([], cs))"

text \<open>\<open>next D cs\<close> is \<^verbatim>\<open>Lexer::next\<close>: the token and the unread text after it.\<close>

definition "next" :: "'d double_ops \<Rightarrow> string \<Rightarrow> error + ('d Token \<times> string)" where
  "next D s =
     (case dropWhile isspace s of
        [] \<Rightarrow> Inr (mkToken End (dzero D) [], [])
      | c # cs \<Rightarrow>
          if isdigit c \<or> c = CHR ''.'' then
            (case scanMantissa (c = CHR ''.'') cs of
               (m, r) \<Rightarrow>
                 (case scanExponent r of
                    (ex, r') \<Rightarrow> Inr (mkToken Number (strtod D (c # m @ ex)) [], r')))
          else if isIdentStart c then
            Inr (mkToken Ident (dzero D) (c # takeWhile isIdentChar cs), dropWhile isIdentChar cs)
          else if c = CHR ''('' then Inr (mkToken LParen (dzero D) ''('', cs)
          else if c = CHR '')'' then Inr (mkToken RParen (dzero D) '')'', cs)
          else if c = CHR '','' then Inr (mkToken Comma (dzero D) '','', cs)
          else if c = CHR ''+'' then Inr (mkToken Plus (dzero D) ''+'', cs)
          else if c = CHR ''-'' then Inr (mkToken Minus (dzero D) ''-'', cs)
          else if c = CHR ''*'' then Inr (mkToken Star (dzero D) ''*'', cs)
          else if c = CHR ''/'' then Inr (mkToken Slash (dzero D) ''/'', cs)
          else if c = CHR ''^'' then Inr (mkToken Caret (dzero D) ''^'', cs)
          else if c = CHR ''='' then Inr (mkToken Assign (dzero D) ''='', cs)
          else Inl (LexError c))"

subsection \<open>Shunting-yard: \<^verbatim>\<open>toRPN\<close>\<close>

record OpInfo =
  prec :: int
  rightAssoc :: bool
  arity :: int

definition mkOp :: "int \<Rightarrow> bool \<Rightarrow> int \<Rightarrow> OpInfo" where
  "mkOp p r a = \<lparr>prec = p, rightAssoc = r, arity = a\<rparr>"

definition OP :: "string \<Rightarrow> OpInfo option" where
  "OP = map_of
     [(''+'', mkOp 1 False 2), (''-'', mkOp 1 False 2), (''*'', mkOp 2 False 2),
      (''/'', mkOp 2 False 2), (''^'', mkOp 3 True 2),
      (''u-'', mkOp 4 True 1)]"

datatype Kind = KNum | KVar | KOp | KFunc | KArgSep | KAssign

record 'd Node =
  k :: Kind
  val :: 'd
  ntext :: string
  argc :: int

text \<open>
  The source builds nodes by aggregate initialisation, \<^verbatim>\<open>{Node::KNum, tok.value}\<close>,
  \<^verbatim>\<open>{Node::KVar, 0, tok.text}\<close>, \<^verbatim>\<open>{Node::KOp,0,"("}\<close>, \<^verbatim>\<open>{Node::KArgSep}\<close>: the
  members left out are value-initialised (\<^verbatim>\<open>0.0\<close>, the empty string, \<^verbatim>\<open>0\<close>).
\<close>

definition node1 :: "'d double_ops \<Rightarrow> Kind \<Rightarrow> 'd Node" where
  "node1 D kd = \<lparr>k = kd, val = dzero D, ntext = [], argc = 0\<rparr>"

definition node2 :: "Kind \<Rightarrow> 'd \<Rightarrow> 'd Node" where
  "node2 kd v = \<lparr>k = kd, val = v, ntext = [], argc = 0\<rparr>"

definition node3 :: "Kind \<Rightarrow> 'd \<Rightarrow> string \<Rightarrow> 'd Node" where
  "node3 kd v s = \<lparr>k = kd, val = v, ntext = s, argc = 0\<rparr>"

definition isOpTok :: "TokType \<Rightarrow> bool" where
  "isOpTok ty \<longleftrightarrow> ty = Plus \<or> ty = Minus \<or> ty = Star \<or> ty = Slash \<or> ty = Caret"

text \<open>
  The vector \<^verbatim>\<open>output\<close> is a list in its own order (\<^verbatim>\<open>push_back\<close> appends). The
  vector \<^verbatim>\<open>ops\<close> is used as a stack only (\<^verbatim>\<open>back\<close>, \<^verbatim>\<open>push_back\<close>, \<^verbatim>\<open>pop_back\<close>,
  \<^verbatim>\<open>empty\<close>): it is a list whose head is \<^verbatim>\<open>ops.back()\<close>.

  \<open>isLParenNode n\<close> is the test \<^verbatim>\<open>n.k==Node::KOp && n.text=="("\<close>.
\<close>

definition isLParenNode :: "'d Node \<Rightarrow> bool" where
  "isLParenNode n \<longleftrightarrow> k n = KOp \<and> ntext n = ''(''"

text \<open>The loop of lines 90 to 92 (comma): pop to the output down to a separator or \<^verbatim>\<open>(\<close>.\<close>

fun popToSep :: "'d Node list \<Rightarrow> 'd Node list \<Rightarrow> 'd Node list \<times> 'd Node list" where
  "popToSep output [] = (output, [])"
| "popToSep output (n # ops) =
     (if k n \<noteq> KArgSep \<and> \<not> isLParenNode n then popToSep (output @ [n]) ops
      else (output, n # ops))"

text \<open>The loop of lines 98 to 100 (closing parenthesis) and of lines 125 to 128 (end).\<close>

fun popToLParen :: "'d Node list \<Rightarrow> 'd Node list \<Rightarrow> 'd Node list \<times> 'd Node list" where
  "popToLParen output [] = (output, [])"
| "popToLParen output (n # ops) =
     (if \<not> isLParenNode n then popToLParen (output @ [n]) ops
      else (output, n # ops))"

text \<open>
  The loop of lines 111 to 116 (operator \<open>oi\<close> arrives): pop every operator of the table
  that binds at least as tightly (tighter, when \<open>oi\<close> is right-associative).
\<close>

fun popOps :: "OpInfo \<Rightarrow> 'd Node list \<Rightarrow> 'd Node list \<Rightarrow> 'd Node list \<times> 'd Node list" where
  "popOps oi output [] = (output, [])"
| "popOps oi output (n # ops) =
     (if k n = KOp \<or> k n = KFunc then
        (case (if k n = KOp then OP (ntext n) else None) of
           Some topi \<Rightarrow>
             if (if rightAssoc oi then prec oi < prec topi else prec oi \<le> prec topi)
             then popOps oi (output @ [n]) ops
             else (output, n # ops)
         | None \<Rightarrow> (output, n # ops))
      else (output, n # ops))"

text \<open>
  The body of the \<^verbatim>\<open>for\<close> loop of \<^verbatim>\<open>toRPN\<close> for one token \<open>tok\<close> (not \<open>End\<close>), with
  \<open>prev\<close> the token before it: the new \<open>output\<close> and \<open>ops\<close>, or the error thrown.
\<close>

definition opSym :: "TokType \<Rightarrow> string" where
  "opSym ty = (if ty = Plus then ''+'' else if ty = Minus then ''-''
     else if ty = Star then ''*'' else if ty = Slash then ''/'' else ''^'')"

definition isUnaryPos :: "TokType \<Rightarrow> bool" where
  "isUnaryPos p \<longleftrightarrow> p = End \<or> p = LParen \<or> p = Comma \<or> isOpTok p \<or> p = Assign"

definition rpnStep ::
  "'d double_ops \<Rightarrow> 'd Token \<Rightarrow> 'd Token \<Rightarrow> 'd Node list \<Rightarrow> 'd Node list
     \<Rightarrow> error + ('d Node list \<times> 'd Node list)" where
  "rpnStep D tok prev output ops =
     (if t tok = Number then Inr (output @ [node2 KNum (value tok)], ops)
      else if t tok = Ident then Inr (output @ [node3 KVar (dzero D) (text tok)], ops)
      else if t tok = Comma then
        (case popToSep output ops of
           (output', ops') \<Rightarrow>
             if ops' = [] then Inl MisplacedSeparator
             else Inr (output' @ [node1 D KArgSep], ops'))
      else if t tok = LParen then Inr (output, node3 KOp (dzero D) ''('' # ops)
      else if t tok = RParen then
        (case popToLParen output ops of
           (output', ops') \<Rightarrow>
             (case ops' of
                [] \<Rightarrow> Inl UnbalancedParens
              | _ # ops'' \<Rightarrow>
                  (case ops'' of
                     [] \<Rightarrow> Inr (output', ops'')
                   | f # ops''' \<Rightarrow>
                       if k f = KFunc then Inr (output' @ [f], ops''')
                       else Inr (output', ops''))))
      else if t tok = Assign then Inr (output, node1 D KAssign # ops)
      else if isOpTok (t tok) then
        (let sym0 = opSym (t tok);
             unary = isUnaryPos (t prev);
             sym = (if unary \<and> sym0 = ''-'' then ''u-'' else sym0)
         in (case OP sym of
               None \<Rightarrow> Inl OutOfRange
             | Some oi \<Rightarrow>
                 (case popOps oi output ops of
                    (output', ops') \<Rightarrow> Inr (output', node3 KOp (dzero D) sym # ops'))))
      else Inl UnexpectedToken)"

text \<open>The loop of lines 125 to 128, after the last token.\<close>

fun rpnFinish :: "'d Node list \<Rightarrow> 'd Node list \<Rightarrow> error + 'd Node list" where
  "rpnFinish output [] = Inr output"
| "rpnFinish output (n # ops) =
     (if isLParenNode n then Inl UnbalancedParens else rpnFinish (output @ [n]) ops)"

text \<open>
  A token that is not \<open>End\<close> consumes at least one character, so the \<^verbatim>\<open>for\<close> loop of
  \<^verbatim>\<open>toRPN\<close> ends.
\<close>

lemma scanMantissa_length: "scanMantissa b cs = (m, r) \<Longrightarrow> length r \<le> length cs"
proof (induction cs arbitrary: b m r)
  case Nil
  then show ?case by simp
next
  case (Cons c cs)
  show ?case
  proof (cases "isdigit c \<or> (\<not> b \<and> c = CHR ''.'')")
    case True
    obtain m' r' where mr: "scanMantissa (if c = CHR ''.'' then True else b) cs = (m', r')"
      by (cases "scanMantissa (if c = CHR ''.'' then True else b) cs") auto
    from Cons.prems True mr have "r = r'" by simp
    with Cons.IH [OF mr] show ?thesis by simp
  next
    case False
    with Cons.prems show ?thesis by simp
  qed
qed

lemma scanExponent_length: "scanExponent cs = (ex, r) \<Longrightarrow> length r \<le> length cs"
proof -
  have dw: "\<And>xs. length (dropWhile isdigit xs) \<le> length xs"
    by (simp add: length_dropWhile_le)
  assume "scanExponent cs = (ex, r)"
  then show ?thesis
    using dw [of "tl cs"] dw [of "tl (tl cs)"]
    by (auto simp: scanExponent_def split: list.splits if_splits)
qed

lemma next_shorter:
  assumes "next D s = Inr (tok, s')" and "t tok \<noteq> End"
  shows "length s' < length s"
proof (cases "dropWhile isspace s")
  case Nil
  with assms show ?thesis by (auto simp: next_def mkToken_def)
next
  case (Cons c cs)
  have le: "length (c # cs) \<le> length s"
    using length_dropWhile_le [of isspace s] Cons by simp
  have "length s' \<le> length cs"
  proof (cases "isdigit c \<or> c = CHR ''.''")
    case True
    obtain m r where mr: "scanMantissa (c = CHR ''.'') cs = (m, r)"
      by (cases "scanMantissa (c = CHR ''.'') cs") auto
    obtain ex r' where er: "scanExponent r = (ex, r')"
      by (cases "scanExponent r") auto
    from assms(1) Cons True mr er have "s' = r'" by (simp add: next_def)
    with scanMantissa_length [OF mr] scanExponent_length [OF er] show ?thesis by simp
  next
    case False
    have "length (dropWhile isIdentChar cs) \<le> length cs"
      by (simp add: length_dropWhile_le)
    with assms(1) Cons False show ?thesis
      by (auto simp: next_def split: if_splits)
  qed
  with le show ?thesis by simp
qed

text \<open>
  The \<^verbatim>\<open>for\<close> loop of \<^verbatim>\<open>toRPN\<close> (lines 86 to 123) followed by the final loop: \<open>s\<close>
  is the unread text, \<open>prev\<close> the previous token.
\<close>

function toRPN_loop ::
  "'d double_ops \<Rightarrow> string \<Rightarrow> 'd Token \<Rightarrow> 'd Node list \<Rightarrow> 'd Node list \<Rightarrow> error + 'd Node list"
  where
  "toRPN_loop D s prev output ops =
     (case next D s of
        Inl e \<Rightarrow> Inl e
      | Inr (tok, s') \<Rightarrow>
          if t tok = End then rpnFinish output ops
          else (case rpnStep D tok prev output ops of
                  Inl e \<Rightarrow> Inl e
                | Inr (output', ops') \<Rightarrow> toRPN_loop D s' tok output' ops'))"
  by pat_completeness auto
termination
  by (relation "measure (\<lambda>(D, s, prev, output, ops). length s)") (auto dest: next_shorter)

declare toRPN_loop.simps [simp del]

definition toRPN :: "'d double_ops \<Rightarrow> string \<Rightarrow> error + 'd Node list" where
  "toRPN D line = toRPN_loop D line (mkToken End (dzero D) []) [] []"

subsection \<open>The evaluator: \<^verbatim>\<open>evalRPN\<close>\<close>

record 'd Env =
  vars :: "string \<rightharpoonup> 'd"
  precision :: int

text \<open>
  The constructor \<^verbatim>\<open>Env()\<close>: \<^verbatim>\<open>pi\<close> is \<^verbatim>\<open>acos(-1.0)\<close> and \<^verbatim>\<open>e\<close> is \<^verbatim>\<open>exp(1.0)\<close>.
\<close>

definition initEnv :: "'d double_ops \<Rightarrow> 'd Env" where
  "initEnv D =
     \<lparr>vars = [''pi'' \<mapsto> cmath D ''acos'' (dneg D (strtod D ''1.0'')),
              ''e'' \<mapsto> cmath D ''exp'' (strtod D ''1.0'')],
      precision = 10\<rparr>"

text \<open>The tables \<^verbatim>\<open>UF\<close> and \<^verbatim>\<open>BF\<close>: the calculator's name and the C function it calls.\<close>

definition UF :: "'d double_ops \<Rightarrow> string \<Rightarrow> ('d \<Rightarrow> 'd) option" where
  "UF D = map_of
     [(''sin'', cmath D ''sin''), (''cos'', cmath D ''cos''), (''tan'', cmath D ''tan''),
      (''asin'', cmath D ''asin''), (''acos'', cmath D ''acos''), (''atan'', cmath D ''atan''),
      (''sqrt'', cmath D ''sqrt''), (''cbrt'', cmath D ''cbrt''), (''exp'', cmath D ''exp''),
      (''abs'', cmath D ''fabs''), (''floor'', cmath D ''floor''), (''ceil'', cmath D ''ceil''),
      (''round'', cmath D ''round''),
      (''ln'', cmath D ''log''), (''log'', cmath D ''log''), (''log10'', cmath D ''log10'')]"

definition BF :: "'d double_ops \<Rightarrow> string \<Rightarrow> ('d \<Rightarrow> 'd \<Rightarrow> 'd) option" where
  "BF D = map_of [(''pow'', cpow D)]"

text \<open>
  The value stack \<^verbatim>\<open>st\<close> is a list whose head is \<^verbatim>\<open>st.back()\<close>, so
  \<^verbatim>\<open>st[st.size()-2]\<close> is the second element. \<^verbatim>\<open>applyOp\<close> reads them without a
  check of its own (the caller checks the size); on a shorter stack the C++ is undefined
  and so are \<open>hd\<close> and \<open>hd \<circ> tl\<close>.
\<close>

definition applyOp :: "'d double_ops \<Rightarrow> string \<Rightarrow> 'd list \<Rightarrow> error + 'd" where
  "applyOp D op st =
     (if op = ''u-'' then Inr (dneg D (hd st))
      else if op = ''+'' then Inr (dadd D (hd (tl st)) (hd st))
      else if op = ''-'' then Inr (dsub D (hd (tl st)) (hd st))
      else if op = ''*'' then Inr (dmul D (hd (tl st)) (hd st))
      else if op = ''/'' then
        (if deq D (hd st) (dzero D) then Inl DivisionByZero
         else Inr (ddiv D (hd (tl st)) (hd st)))
      else if op = ''^'' then Inr (cpow D (hd (tl st)) (hd st))
      else Inl (UnknownOperator op))"

text \<open>
  The body of the evaluation loop for one node. The source has the loop twice, with the
  same body (lines 178 to 204 for the right-hand side of an assignment, lines 214 to 239
  otherwise); nodes of the kinds \<open>KFunc\<close>, \<open>KArgSep\<close> and \<open>KAssign\<close> match no branch
  and leave the stack as it is. The loop reads the environment and never writes it.
\<close>

definition evalNode :: "'d double_ops \<Rightarrow> 'd Env \<Rightarrow> 'd Node \<Rightarrow> 'd list \<Rightarrow> error + 'd list" where
  "evalNode D env n st =
     (if k n = KNum then Inr (val n # st)
      else if k n = KVar then
        (case UF D (ntext n) of
           Some f \<Rightarrow>
             (case st of
                [] \<Rightarrow> Inl (MissingArgument (ntext n))
              | a # st' \<Rightarrow> Inr (f a # st'))
         | None \<Rightarrow>
             (case BF D (ntext n) of
                Some g \<Rightarrow>
                  (if length st < 2 then Inl (MissingArgument (ntext n))
                   else Inr (g (hd (tl st)) (hd st) # tl (tl st)))
              | None \<Rightarrow>
                  (case vars env (ntext n) of
                     None \<Rightarrow> Inl (UndefinedVariable (ntext n))
                   | Some v \<Rightarrow> Inr (v # st))))
      else if k n = KOp then
        (let need = (if ntext n = ''u-'' then 1 else 2 :: nat) in
         if length st < need then Inl (StackUnderflow (ntext n))
         else (case applyOp D (ntext n) st of
                 Inl e \<Rightarrow> Inl e
               | Inr res \<Rightarrow> Inr (res # drop need st)))
      else Inr st)"

fun evalLoop :: "'d double_ops \<Rightarrow> 'd Env \<Rightarrow> 'd Node list \<Rightarrow> 'd list \<Rightarrow> error + 'd list" where
  "evalLoop D env [] st = Inr st"
| "evalLoop D env (n # ns) st =
     (case evalNode D env n st of
        Inl e \<Rightarrow> Inl e
      | Inr st' \<Rightarrow> evalLoop D env ns st')"

text \<open>
  \<^verbatim>\<open>evalRPN\<close>: the result or the error, and the environment afterwards. The only write
  to the environment is \<^verbatim>\<open>env.vars[name]=st.back()\<close> of line 207. (The line printed to
  \<^verbatim>\<open>cout\<close> after an assignment is not modelled.)
\<close>

definition hasAssign :: "'d Node list \<Rightarrow> bool" where
  "hasAssign rpn \<longleftrightarrow> (\<exists>n \<in> set rpn. k n = KAssign)"

definition evalRPN :: "'d double_ops \<Rightarrow> 'd Node list \<Rightarrow> 'd Env \<Rightarrow> (error + 'd) \<times> 'd Env" where
  "evalRPN D rpn env =
     (if hasAssign rpn then
        (if length rpn < 3 \<or> k (rpn ! 0) \<noteq> KVar \<or> k (rpn ! 1) \<noteq> KAssign
         then (Inl InvalidAssignment, env)
         else
           (let name = ntext (rpn ! 0); rhs = drop 2 rpn in
            case evalLoop D env rhs [] of
              Inl e \<Rightarrow> (Inl e, env)
            | Inr st \<Rightarrow>
                if length st \<noteq> 1 then (Inl InvalidAssignedExpression, env)
                else (Inr (hd st), env\<lparr>vars := (vars env)(name \<mapsto> hd st)\<rparr>)))
      else
        (case evalLoop D env rpn [] of
           Inl e \<Rightarrow> (Inl e, env)
         | Inr st \<Rightarrow>
             if length st \<noteq> 1 then (Inl InvalidExpression, env)
             else (Inr (hd st), env)))"

subsection \<open>Call normalisation: \<^verbatim>\<open>preprocessFuncCalls\<close>\<close>

text \<open>
  The inner loop of lines 255 to 263 over the text from the opening parenthesis of a
  call: \<open>depth\<close>, the arguments so far, the current argument and the unread text. It
  returns the depth at which the loop ended, the arguments, and the text after the
  closing parenthesis (after position \<^verbatim>\<open>m\<close>). The depth is a C++ \<^verbatim>\<open>int\<close>; it is bounded
  by the length of the line.
\<close>

fun scanCall :: "int \<Rightarrow> string list \<Rightarrow> string \<Rightarrow> string \<Rightarrow> int \<times> string list \<times> string" where
  "scanCall depth args cur [] = (depth, args, [])"
| "scanCall depth args cur (c # cs) =
     (if c = CHR ''('' then
        scanCall (depth + 1) args (if depth + 1 > 1 then cur @ [c] else cur) cs
      else if c = CHR '')'' then
        (if depth - 1 = 0 then (depth - 1, args @ [cur], cs)
         else scanCall (depth - 1) args (cur @ [c]) cs)
      else if c = CHR '','' \<and> depth = 1 then scanCall depth (args @ [cur]) [] cs
      else scanCall depth args (cur @ [c]) cs)"

text \<open>The loop of line 266: the arguments joined by one space.\<close>

fun joinArgs :: "string list \<Rightarrow> string" where
  "joinArgs [] = []"
| "joinArgs [a] = a"
| "joinArgs (a # b # as) = a @ '' '' @ joinArgs (b # as)"

lemma scanCall_length: "scanCall depth args cur cs = (d, as, r) \<Longrightarrow> length r \<le> length cs"
proof (induction cs arbitrary: depth args cur)
  case Nil
  then show ?case by simp
next
  case (Cons c cs)
  from Cons.prems show ?case
    by (auto split: if_splits dest!: Cons.IH)
qed

text \<open>
  The outer loop of \<^verbatim>\<open>preprocessFuncCalls\<close>: the unread text \<^verbatim>\<open>in[i..)\<close> and \<^verbatim>\<open>out\<close>.
\<close>

function preprocessLoop :: "string \<Rightarrow> string \<Rightarrow> error + string" where
  "preprocessLoop [] out = Inr out"
| "preprocessLoop (c # cs) out =
     (if isalpha c \<or> c = CHR ''_'' then
        (let name = c # takeWhile (\<lambda>x. isalnum x \<or> x = CHR ''_'') cs;
             r = dropWhile isspace (dropWhile (\<lambda>x. isalnum x \<or> x = CHR ''_'') cs)
         in if r \<noteq> [] \<and> hd r = CHR ''('' then
              (case scanCall 0 [] [] r of
                 (depth, args, rest) \<Rightarrow>
                   if depth \<noteq> 0 then Inl UnbalancedCallParens
                   else preprocessLoop rest (out @ ''('' @ joinArgs args @ '') '' @ name))
            else preprocessLoop cs (out @ [c]))
      else preprocessLoop cs (out @ [c]))"
  by pat_completeness auto
termination
proof (relation "measure (\<lambda>(s, out). length s)")
  show "wf (measure (\<lambda>(s, out). length s))" by simp
next
  fix c :: char and cs out name r x depth y args rest
  assume r: "r = dropWhile isspace (dropWhile (\<lambda>x. isalnum x \<or> x = CHR ''_'') cs)"
    and x: "(depth, y) = scanCall 0 [] [] r" "(args, rest) = y"
  have "length rest \<le> length r"
    using scanCall_length [of 0 "[]" "[]" r depth args rest] x by simp
  also have "length r \<le> length (dropWhile (\<lambda>x. isalnum x \<or> x = CHR ''_'') cs)"
    unfolding r by (rule length_dropWhile_le)
  also have "\<dots> \<le> length cs" by (rule length_dropWhile_le)
  finally show "((rest, out @ ''('' @ joinArgs args @ '') '' @ name), c # cs, out)
      \<in> measure (\<lambda>(s, out). length s)" by simp
qed auto

definition preprocessFuncCalls :: "string \<Rightarrow> error + string" where
  "preprocessFuncCalls inp = preprocessLoop inp []"

subsection \<open>One line through the pipeline\<close>

text \<open>
  The body of the \<^verbatim>\<open>try\<close> block of \<^verbatim>\<open>main\<close> (lines 310 to 312): the value printed or
  the exception caught, and the environment afterwards.
\<close>

definition evaluate :: "'d double_ops \<Rightarrow> string \<Rightarrow> 'd Env \<Rightarrow> (error + 'd) \<times> 'd Env" where
  "evaluate D line env =
     (case preprocessFuncCalls line of
        Inl e \<Rightarrow> (Inl e, env)
      | Inr pre \<Rightarrow>
          (case toRPN D pre of
             Inl e \<Rightarrow> (Inl e, env)
           | Inr rpn \<Rightarrow> evalRPN D rpn env))"

subsection \<open>An idealised \<^verbatim>\<open>double\<close>: exact real arithmetic\<close>

text \<open>
  To read concrete results, the operations are instantiated with exact arithmetic on the
  reals: no rounding, no infinities, no NaN. IEEE-754 binary64 arithmetic agrees with it
  wherever the operands and the exact result are representable (small integers, halves),
  which is the case for the concrete lines evaluated below.

  Modelled from the C standard (\<^verbatim>\<open>strtod\<close>, decimal form): the value of the longest
  prefix \<^verbatim>\<open>digits [. digits] [(e|E) [+|-] digits]\<close> with at least one mantissa digit,
  and \<^verbatim>\<open>0\<close> when there is none.
\<close>

definition digitVal :: "char \<Rightarrow> nat" where
  "digitVal c = of_char c - 48"

definition decimalNat :: "string \<Rightarrow> nat" where
  "decimalNat ds = foldl (\<lambda>a c. 10 * a + digitVal c) 0 ds"

definition exponentVal :: "string \<Rightarrow> int" where
  "exponentVal r =
     (case r of
        [] \<Rightarrow> 0
      | c # r1 \<Rightarrow>
          if c = CHR ''e'' \<or> c = CHR ''E'' then
            (case r1 of
               [] \<Rightarrow> 0
             | sg # r2 \<Rightarrow>
                 if sg = CHR ''-'' then - int (decimalNat (takeWhile isdigit r2))
                 else if sg = CHR ''+'' then int (decimalNat (takeWhile isdigit r2))
                 else int (decimalNat (takeWhile isdigit r1)))
          else 0)"

definition strtodExact :: "string \<Rightarrow> real" where
  "strtodExact s =
     (let ip = takeWhile isdigit s;
          r1 = dropWhile isdigit s;
          hasDot = (r1 \<noteq> [] \<and> hd r1 = CHR ''.'');
          fp = (if hasDot then takeWhile isdigit (tl r1) else []);
          r2 = (if hasDot then dropWhile isdigit (tl r1) else r1)
      in if ip = [] \<and> fp = [] then 0
         else of_nat (decimalNat (ip @ fp)) / 10 ^ length fp * 10 powi exponentVal r2)"

text \<open>Modelled from the C standard: the functions of \<^verbatim>\<open><cmath>\<close> on the reals.\<close>

definition cmathExact :: "string \<Rightarrow> real \<Rightarrow> real" where
  "cmathExact f x =
     (if f = ''sin'' then sin x
      else if f = ''cos'' then cos x
      else if f = ''tan'' then tan x
      else if f = ''asin'' then arcsin x
      else if f = ''acos'' then arccos x
      else if f = ''atan'' then arctan x
      else if f = ''sqrt'' then sqrt x
      else if f = ''cbrt'' then root 3 x
      else if f = ''exp'' then exp x
      else if f = ''fabs'' then \<bar>x\<bar>
      else if f = ''floor'' then of_int \<lfloor>x\<rfloor>
      else if f = ''ceil'' then of_int \<lceil>x\<rceil>
      else if f = ''round'' then sgn x * of_int \<lfloor>\<bar>x\<bar> + 1 / 2\<rfloor>
      else if f = ''log'' then ln x
      else if f = ''log10'' then log 10 x
      else 0)"

definition cpowExact :: "real \<Rightarrow> real \<Rightarrow> real" where
  "cpowExact a b = (if of_int \<lfloor>b\<rfloor> = b then a powi \<lfloor>b\<rfloor> else a powr b)"

definition exactReal :: "real double_ops" where
  "exactReal =
     \<lparr>strtod = strtodExact, dzero = 0, deq = (=), dneg = uminus, dadd = (+), dsub = (-),
      dmul = (*), ddiv = (/), cmath = cmathExact, cpow = cpowExact\<rparr>"

definition emptyEnv :: "real Env" where
  "emptyEnv = \<lparr>vars = Map.empty, precision = 10\<rparr>"

subsection \<open>Reference: the value of an expression under a precedence order\<close>

text \<open>
  The properties of operator precedence compare the pipeline with the value of an
  expression tree that a grammar assigns to the tokens of the line. These definitions
  are not code of the program.

  An expression without variables is a tree of number literals, unary minus and the five
  binary operators. Its value is computed with the operations of \<^verbatim>\<open>applyOp\<close>, the left
  operand first; a division whose right operand compares equal to \<^verbatim>\<open>0.0\<close> fails with
  \<open>DivisionByZero\<close>.
\<close>

datatype binop = OpAdd | OpSub | OpMul | OpDiv | OpPow

datatype 'd expr = Lit 'd | Neg "'d expr" | Bin binop "'d expr" "'d expr"

fun applyBin :: "'d double_ops \<Rightarrow> binop \<Rightarrow> 'd \<Rightarrow> 'd \<Rightarrow> error + 'd" where
  "applyBin D OpAdd x y = Inr (dadd D x y)"
| "applyBin D OpSub x y = Inr (dsub D x y)"
| "applyBin D OpMul x y = Inr (dmul D x y)"
| "applyBin D OpDiv x y = (if deq D y (dzero D) then Inl DivisionByZero else Inr (ddiv D x y))"
| "applyBin D OpPow x y = Inr (cpow D x y)"

fun evalExpr :: "'d double_ops \<Rightarrow> 'd expr \<Rightarrow> error + 'd" where
  "evalExpr D (Lit v) = Inr v"
| "evalExpr D (Neg a) = (case evalExpr D a of Inl e \<Rightarrow> Inl e | Inr x \<Rightarrow> Inr (dneg D x))"
| "evalExpr D (Bin b l r) =
     (case evalExpr D l of
        Inl e \<Rightarrow> Inl e
      | Inr x \<Rightarrow> (case evalExpr D r of Inl e \<Rightarrow> Inl e | Inr y \<Rightarrow> applyBin D b x y))"

text \<open>
  The tokens of a line: what \<^verbatim>\<open>Lexer::next\<close> returns, call after call, up to \<open>End\<close>.
\<close>

function tokenize :: "'d double_ops \<Rightarrow> string \<Rightarrow> error + 'd Token list" where
  "tokenize D s =
     (case next D s of
        Inl e \<Rightarrow> Inl e
      | Inr (tok, s') \<Rightarrow>
          if t tok = End then Inr []
          else (case tokenize D s' of Inl e \<Rightarrow> Inl e | Inr toks \<Rightarrow> Inr (tok # toks)))"
  by pat_completeness auto
termination
  by (relation "measure (\<lambda>(D, s). length s)") (auto dest: next_shorter)

declare tokenize.simps [simp del]

text \<open>
  The grammar of the operator table \<open>OP\<close>. \<open>calcExpr lv toks e\<close>: the tokens \<open>toks\<close>
  are an expression whose outermost operators are of level \<open>lv\<close> or above, and \<open>e\<close> is
  its tree. The levels are 1 for \<^verbatim>\<open>+\<close> and \<^verbatim>\<open>-\<close> (left-associative), 2 for \<^verbatim>\<open>*\<close> and
  \<^verbatim>\<open>/\<close> (left-associative), 3 for \<^verbatim>\<open>^\<close> (right-associative), 4 for unary minus, and 5
  for a number or an expression in parentheses.
\<close>

inductive calcExpr :: "nat \<Rightarrow> 'd Token list \<Rightarrow> 'd expr \<Rightarrow> bool" where
  num: "t tok = Number \<Longrightarrow> calcExpr 5 [tok] (Lit (value tok))"
| paren: "t lp = LParen \<Longrightarrow> calcExpr 1 ts e \<Longrightarrow> t rp = RParen \<Longrightarrow> calcExpr 5 (lp # ts @ [rp]) e"
| neg: "t m = Minus \<Longrightarrow> calcExpr 4 ts e \<Longrightarrow> calcExpr 4 (m # ts) (Neg e)"
| pow: "calcExpr 4 ls l \<Longrightarrow> t c = Caret \<Longrightarrow> calcExpr 3 rs r \<Longrightarrow> calcExpr 3 (ls @ c # rs) (Bin OpPow l r)"
| mul: "calcExpr 2 ls l \<Longrightarrow> t c = Star \<Longrightarrow> calcExpr 3 rs r \<Longrightarrow> calcExpr 2 (ls @ c # rs) (Bin OpMul l r)"
| div: "calcExpr 2 ls l \<Longrightarrow> t c = Slash \<Longrightarrow> calcExpr 3 rs r \<Longrightarrow> calcExpr 2 (ls @ c # rs) (Bin OpDiv l r)"
| add: "calcExpr 1 ls l \<Longrightarrow> t c = Plus \<Longrightarrow> calcExpr 2 rs r \<Longrightarrow> calcExpr 1 (ls @ c # rs) (Bin OpAdd l r)"
| sub: "calcExpr 1 ls l \<Longrightarrow> t c = Minus \<Longrightarrow> calcExpr 2 rs r \<Longrightarrow> calcExpr 1 (ls @ c # rs) (Bin OpSub l r)"
| up: "calcExpr (Suc lv) ts e \<Longrightarrow> calcExpr lv ts e"

text \<open>
  The grammar of the specification's sentence on standard precedence, "\<^verbatim>\<open>^\<close>
  right-associative and highest, unary minus next": level 4 is \<^verbatim>\<open>^\<close>, whose left operand
  is a number or an expression in parentheses and whose right operand may start with a
  unary minus, and level 3 is unary minus. The other levels are those of \<open>calcExpr\<close>.
\<close>

inductive claimedExpr :: "nat \<Rightarrow> 'd Token list \<Rightarrow> 'd expr \<Rightarrow> bool" where
  num: "t tok = Number \<Longrightarrow> claimedExpr 5 [tok] (Lit (value tok))"
| paren: "t lp = LParen \<Longrightarrow> claimedExpr 1 ts e \<Longrightarrow> t rp = RParen \<Longrightarrow> claimedExpr 5 (lp # ts @ [rp]) e"
| pow: "claimedExpr 5 ls l \<Longrightarrow> t c = Caret \<Longrightarrow> claimedExpr 3 rs r \<Longrightarrow> claimedExpr 4 (ls @ c # rs) (Bin OpPow l r)"
| neg: "t m = Minus \<Longrightarrow> claimedExpr 3 ts e \<Longrightarrow> claimedExpr 3 (m # ts) (Neg e)"
| mul: "claimedExpr 2 ls l \<Longrightarrow> t c = Star \<Longrightarrow> claimedExpr 3 rs r \<Longrightarrow> claimedExpr 2 (ls @ c # rs) (Bin OpMul l r)"
| div: "claimedExpr 2 ls l \<Longrightarrow> t c = Slash \<Longrightarrow> claimedExpr 3 rs r \<Longrightarrow> claimedExpr 2 (ls @ c # rs) (Bin OpDiv l r)"
| add: "claimedExpr 1 ls l \<Longrightarrow> t c = Plus \<Longrightarrow> claimedExpr 2 rs r \<Longrightarrow> claimedExpr 1 (ls @ c # rs) (Bin OpAdd l r)"
| sub: "claimedExpr 1 ls l \<Longrightarrow> t c = Minus \<Longrightarrow> claimedExpr 2 rs r \<Longrightarrow> claimedExpr 1 (ls @ c # rs) (Bin OpSub l r)"
| up: "claimedExpr (Suc lv) ts e \<Longrightarrow> claimedExpr lv ts e"

subsection \<open>Notions of the proofs\<close>

text \<open>
  \<open>rpnTokens\<close> is the loop of \<^verbatim>\<open>toRPN\<close> over a list of tokens already read, and
  \<open>postfix e\<close> the node sequence of the tree \<open>e\<close> in postfix order.
\<close>

fun rpnTokens ::
  "'d double_ops \<Rightarrow> 'd Token list \<Rightarrow> 'd Token \<Rightarrow> 'd Node list \<Rightarrow> 'd Node list \<Rightarrow> error + 'd Node list"
  where
  "rpnTokens D [] prev output ops = rpnFinish output ops"
| "rpnTokens D (tok # toks) prev output ops =
     (case rpnStep D tok prev output ops of
        Inl e \<Rightarrow> Inl e
      | Inr (output', ops') \<Rightarrow> rpnTokens D toks tok output' ops')"

fun binSym :: "binop \<Rightarrow> string" where
  "binSym OpAdd = ''+''"
| "binSym OpSub = ''-''"
| "binSym OpMul = ''*''"
| "binSym OpDiv = ''/''"
| "binSym OpPow = ''^''"

fun postfix :: "'d double_ops \<Rightarrow> 'd expr \<Rightarrow> 'd Node list" where
  "postfix D (Lit v) = [node2 KNum v]"
| "postfix D (Neg a) = postfix D a @ [node3 KOp (dzero D) ''u-'']"
| "postfix D (Bin b l r) = postfix D l @ postfix D r @ [node3 KOp (dzero D) (binSym b)]"

text \<open>
  The invariant of the operator stack. \<open>wouldPop oi topi\<close> is the test of line 114: the
  arriving operator \<open>oi\<close> pops the operator \<open>topi\<close>. \<open>pendingOp p n\<close>: the node is an
  operator of the table of precedence \<open>p\<close> or more. \<open>stopsAt oi ops\<close>: the loop of
  lines 111 to 116 pops nothing from \<open>ops\<close>. \<open>ctx p ops\<close>: the stack holds no \<open>KFunc\<close>
  node and no operator of precedence \<open>p\<close> or more pops its top. \<open>parsesTo D p toks e\<close>:
  from a position where a minus would be unary and on a stack with \<open>ctx p\<close>, the loop over
  \<open>toks\<close> appends to the output and pushes on the stack nodes that are, output first and
  then stack from the top, the postfix order of \<open>e\<close>; the nodes pushed are operators of
  precedence \<open>p\<close> or more.
\<close>

definition wouldPop :: "OpInfo \<Rightarrow> OpInfo \<Rightarrow> bool" where
  "wouldPop oi topi \<longleftrightarrow> (if rightAssoc oi then prec oi < prec topi else prec oi \<le> prec topi)"

definition pendingOp :: "int \<Rightarrow> 'd Node \<Rightarrow> bool" where
  "pendingOp p n \<longleftrightarrow> k n = KOp \<and> (\<exists>oi. OP (ntext n) = Some oi \<and> p \<le> prec oi)"

definition stopsAt :: "OpInfo \<Rightarrow> 'd Node list \<Rightarrow> bool" where
  "stopsAt oi ops \<longleftrightarrow>
     (case ops of
        [] \<Rightarrow> True
      | n # _ \<Rightarrow> \<not> (k n = KOp \<and> (\<exists>topi. OP (ntext n) = Some topi \<and> wouldPop oi topi)))"

definition ctx :: "int \<Rightarrow> 'd Node list \<Rightarrow> bool" where
  "ctx p ops \<longleftrightarrow>
     (\<forall>n \<in> set ops. k n \<noteq> KFunc)
     \<and> (\<forall>opname oi. OP opname = Some oi \<and> p \<le> prec oi \<longrightarrow> stopsAt oi ops)"

definition parsesTo :: "'d double_ops \<Rightarrow> int \<Rightarrow> 'd Token list \<Rightarrow> 'd expr \<Rightarrow> bool" where
  "parsesTo D p toks e \<longleftrightarrow>
     toks \<noteq> [] \<and> \<not> isUnaryPos (t (last toks))
     \<and> (\<forall>prev out ops. isUnaryPos (t prev) \<and> ctx p ops \<longrightarrow>
          (\<exists>X P. X @ P = postfix D e \<and> (\<forall>n \<in> set P. pendingOp p n)
             \<and> (\<forall>rest. rpnTokens D (toks @ rest) prev out ops
                        = rpnTokens D rest (last toks) (out @ X) (P @ ops))))"

text \<open>
  \<open>plain toks\<close>: no identifier, and no number directly before an opening parenthesis.
  \<open>plainStart s\<close>: the text \<open>s\<close> starts neither with an identifier character nor, after
  white space, with an opening parenthesis. \<open>expShape ex s'\<close>: \<open>ex\<close> is empty or an
  exponent (marker, optional sign, digits) and \<open>s'\<close> does not go on with a digit.
\<close>

fun plain :: "'d Token list \<Rightarrow> bool" where
  "plain [] = True"
| "plain (x # r) =
     (t x \<noteq> Ident \<and> (t x = Number \<longrightarrow> r = [] \<or> t (hd r) \<noteq> LParen) \<and> plain r)"

definition plainStart :: "string \<Rightarrow> bool" where
  "plainStart s \<longleftrightarrow>
     (s = [] \<or> \<not> isIdentStart (hd s))
     \<and> \<not> (dropWhile isspace s \<noteq> [] \<and> hd (dropWhile isspace s) = CHR ''('')"

definition expShape :: "string \<Rightarrow> string \<Rightarrow> bool" where
  "expShape ex s' \<longleftrightarrow>
     ex = [] \<or>
     (\<exists>mk sg ds. ex = mk # sg @ ds \<and> (mk = CHR ''e'' \<or> mk = CHR ''E'')
        \<and> (sg = [] \<or> sg = ''+'' \<or> sg = ''-'') \<and> ds \<noteq> [] \<and> (\<forall>ch \<in> set ds. isdigit ch)
        \<and> (s' = [] \<or> \<not> isdigit (hd s')))"

section \<open>Properties\<close>

subsection \<open>Evaluating concrete lines\<close>

text \<open>
  On a concrete line every definition of the pipeline unfolds by rewriting; these are
  the equations needed.
\<close>

lemmas charDefs = isspace_def isdigit_def isalpha_def isalnum_def isIdentStart_def isIdentChar_def

lemmas pipelineDefs = evaluate_def preprocessFuncCalls_def toRPN_def toRPN_loop.simps next_def
  scanExponent_def mkToken_def rpnStep_def isOpTok_def opSym_def isUnaryPos_def OP_def mkOp_def
  node1_def node2_def node3_def isLParenNode_def evalRPN_def hasAssign_def evalNode_def
  UF_def BF_def applyOp_def

lemmas exactDefs = exactReal_def strtodExact_def exponentVal_def decimalNat_def digitVal_def
  cmathExact_def cpowExact_def emptyEnv_def

lemma floor_minus_one_real: "\<lfloor>- 1 :: real\<rfloor> = - 1"
  by (simp add: floor_eq_iff)

subsection \<open>Unary minus\<close>

lemma minus_step:
  assumes "t tok = Minus"
  shows "\<exists>output' ops'. rpnStep D tok prev output ops =
           Inr (output', node3 KOp (dzero D)
                  (if t prev = End \<or> t prev = LParen \<or> t prev = Comma \<or> t prev = Assign
                      \<or> t prev \<in> {Plus, Minus, Star, Slash, Caret}
                   then ''u-'' else ''-'') # ops')"
proof -
  obtain o1 p1 where a: "popOps (mkOp 4 True 1) output ops = (o1, p1)"
    by (cases "popOps (mkOp 4 True 1) output ops") auto
  obtain o2 p2 where b: "popOps (mkOp 1 False 2) output ops = (o2, p2)"
    by (cases "popOps (mkOp 1 False 2) output ops") auto
  show ?thesis
    using assms a b
    by (cases "t prev") (simp_all add: rpnStep_def isOpTok_def opSym_def isUnaryPos_def OP_def)
qed

lemma OP_prec_less_unary: "OP opname = Some oi \<Longrightarrow> opname \<noteq> ''u-'' \<Longrightarrow> prec oi < 4"
  by (auto simp: OP_def mkOp_def split: if_splits)

text \<open>
  C3. A \<^verbatim>\<open>-\<close> token is pushed as the unary operator \<^verbatim>\<open>u-\<close> exactly when the previous
  token is absent (the initial \<open>End\<close>), \<^verbatim>\<open>(\<close>, \<^verbatim>\<open>,\<close>, \<^verbatim>\<open>=\<close> or an operator, and as the
  binary \<^verbatim>\<open>-\<close> otherwise. In the operator table \<^verbatim>\<open>u-\<close> is right-associative and its
  precedence 4 is above that of every other operator. The lines \<^verbatim>\<open>-3+2\<close>, \<^verbatim>\<open>3-2\<close> and
  \<^verbatim>\<open>2^-1\<close> evaluate to \<open>(-3)+2\<close>, \<open>3-2\<close> and \<open>pow(2,-1)\<close>, which are \<open>-1\<close>, \<open>1\<close> and
  \<open>1/2\<close> in exact arithmetic.
\<close>

theorem unary_minus_rule:
  "(t tok = Minus \<longrightarrow>
      (\<exists>output' ops'. rpnStep D tok prev output ops =
           Inr (output', node3 KOp (dzero D)
                  (if t prev = End \<or> t prev = LParen \<or> t prev = Comma \<or> t prev = Assign
                      \<or> t prev \<in> {Plus, Minus, Star, Slash, Caret}
                   then ''u-'' else ''-'') # ops')))
   \<and> OP ''u-'' = Some (mkOp 4 True 1)
   \<and> (\<forall>opname oi. OP opname = Some oi \<and> opname \<noteq> ''u-'' \<longrightarrow> prec oi < 4)
   \<and> evaluate D ''-3+2'' env = (Inr (dadd D (dneg D (strtod D ''3'')) (strtod D ''2'')), env)
   \<and> evaluate D ''3-2'' env = (Inr (dsub D (strtod D ''3'') (strtod D ''2'')), env)
   \<and> evaluate D ''2^-1'' env = (Inr (cpow D (strtod D ''2'') (dneg D (strtod D ''1''))), env)
   \<and> evaluate exactReal ''-3+2'' renv = (Inr (- 1), renv)
   \<and> evaluate exactReal ''3-2'' renv = (Inr 1, renv)
   \<and> evaluate exactReal ''2^-1'' renv = (Inr (1 / 2), renv)"
proof -
  have 1: "t tok = Minus \<longrightarrow>
      (\<exists>output' ops'. rpnStep D tok prev output ops =
           Inr (output', node3 KOp (dzero D)
                  (if t prev = End \<or> t prev = LParen \<or> t prev = Comma \<or> t prev = Assign
                      \<or> t prev \<in> {Plus, Minus, Star, Slash, Caret}
                   then ''u-'' else ''-'') # ops'))"
    using minus_step by blast
  have 2: "OP ''u-'' = Some (mkOp 4 True 1)" by (simp add: OP_def)
  have 3: "\<forall>opname oi. OP opname = Some oi \<and> opname \<noteq> ''u-'' \<longrightarrow> prec oi < 4"
    using OP_prec_less_unary by blast
  have 4: "evaluate D ''-3+2'' env = (Inr (dadd D (dneg D (strtod D ''3'')) (strtod D ''2'')), env)"
    by (simp add: pipelineDefs charDefs)
  have 5: "evaluate D ''3-2'' env = (Inr (dsub D (strtod D ''3'') (strtod D ''2'')), env)"
    by (simp add: pipelineDefs charDefs)
  have 6: "evaluate D ''2^-1'' env = (Inr (cpow D (strtod D ''2'') (dneg D (strtod D ''1''))), env)"
    by (simp add: pipelineDefs charDefs)
  have 7: "evaluate exactReal ''-3+2'' renv = (Inr (- 1), renv)"
    by (simp add: pipelineDefs charDefs exactDefs)
  have 8: "evaluate exactReal ''3-2'' renv = (Inr 1, renv)"
    by (simp add: pipelineDefs charDefs exactDefs)
  have 9: "evaluate exactReal ''2^-1'' renv = (Inr (1 / 2), renv)"
    by (simp add: pipelineDefs charDefs exactDefs floor_minus_one_real power_int_def)
  from 1 2 3 4 5 6 7 8 9 show ?thesis by blast
qed

theorem unary_minus_rule_witness:
  "t (mkToken Minus (0::real) ''-'') = Minus
   \<and> (\<exists>output' ops'. rpnStep exactReal (mkToken Minus 0 ''-'') (mkToken LParen 0 ''('') [] [] =
           Inr (output', node3 KOp 0 ''u-'' # ops'))
   \<and> evaluate exactReal ''-3+2'' emptyEnv = (Inr (- 1), emptyEnv)
   \<and> evaluate exactReal ''3-2'' emptyEnv = (Inr 1, emptyEnv)
   \<and> evaluate exactReal ''2^-1'' emptyEnv = (Inr (1 / 2), emptyEnv)"
proof -
  have h: "t (mkToken Minus (0::real) ''-'') = Minus" by (simp add: mkToken_def)
  have z: "dzero exactReal = 0" by (simp add: exactReal_def)
  have p: "t (mkToken LParen (0::real) ''('') = LParen" by (simp add: mkToken_def)
  note inst = unary_minus_rule [of "mkToken Minus 0 ''-''" exactReal "mkToken LParen 0 ''(''" "[]" "[]"
      emptyEnv emptyEnv]
  from inst h have "\<exists>output' ops'. rpnStep exactReal (mkToken Minus 0 ''-'') (mkToken LParen 0 ''('') [] [] =
           Inr (output', node3 KOp (dzero exactReal)
                  (if t (mkToken LParen (0::real) ''('') = End \<or> t (mkToken LParen (0::real) ''('') = LParen
                      \<or> t (mkToken LParen (0::real) ''('') = Comma \<or> t (mkToken LParen (0::real) ''('') = Assign
                      \<or> t (mkToken LParen (0::real) ''('') \<in> {Plus, Minus, Star, Slash, Caret}
                   then ''u-'' else ''-'') # ops')"
    by blast
  then have a: "\<exists>output' ops'. rpnStep exactReal (mkToken Minus 0 ''-'') (mkToken LParen 0 ''('') [] [] =
           Inr (output', node3 KOp 0 ''u-'' # ops')"
    by (simp only: z p if_True simp_thms)
  from inst h a show ?thesis by blast
qed

subsection \<open>Resolution of names\<close>

text \<open>
  C4. A \<open>KVar\<close> node is resolved in the unary function table first, then in the binary
  function table, then in the environment. So a binding of the environment for a name
  of a function table has no effect on the node, a name in none of the three fails with
  \<open>UndefinedVariable\<close>, and with \<^verbatim>\<open>sin\<close> bound in the environment the line \<^verbatim>\<open>sin(1)\<close>
  still calls the C function \<^verbatim>\<open>sin\<close>.
\<close>

theorem variable_resolution_order:
  "(k n = KVar \<longrightarrow>
      evalNode D env n st =
        (case UF D (ntext n) of
           Some f \<Rightarrow> if st = [] then Inl (MissingArgument (ntext n)) else Inr (f (hd st) # tl st)
         | None \<Rightarrow>
             (case BF D (ntext n) of
                Some g \<Rightarrow> if length st < 2 then Inl (MissingArgument (ntext n))
                          else Inr (g (hd (tl st)) (hd st) # tl (tl st))
              | None \<Rightarrow>
                  (case vars env (ntext n) of
                     Some v \<Rightarrow> Inr (v # st)
                   | None \<Rightarrow> Inl (UndefinedVariable (ntext n))))))
   \<and> (k n = KVar \<and> (UF D (ntext n) \<noteq> None \<or> BF D (ntext n) \<noteq> None) \<longrightarrow>
        evalNode D (env\<lparr>vars := (vars env)(ntext n \<mapsto> v)\<rparr>) n st = evalNode D env n st)
   \<and> (k n = KVar \<and> UF D (ntext n) = None \<and> BF D (ntext n) = None \<and> vars env (ntext n) = None \<longrightarrow>
        evalNode D env n st = Inl (UndefinedVariable (ntext n)))
   \<and> evaluate D ''sin(1)'' (env\<lparr>vars := (vars env)(''sin'' \<mapsto> v)\<rparr>)
        = (Inr (cmath D ''sin'' (strtod D ''1'')), env\<lparr>vars := (vars env)(''sin'' \<mapsto> v)\<rparr>)
   \<and> (vars env ''foo'' = None \<longrightarrow> evaluate D ''foo'' env = (Inl (UndefinedVariable ''foo''), env))"
proof -
  have 1: "k n = KVar \<longrightarrow>
      evalNode D env n st =
        (case UF D (ntext n) of
           Some f \<Rightarrow> if st = [] then Inl (MissingArgument (ntext n)) else Inr (f (hd st) # tl st)
         | None \<Rightarrow>
             (case BF D (ntext n) of
                Some g \<Rightarrow> if length st < 2 then Inl (MissingArgument (ntext n))
                          else Inr (g (hd (tl st)) (hd st) # tl (tl st))
              | None \<Rightarrow>
                  (case vars env (ntext n) of
                     Some v \<Rightarrow> Inr (v # st)
                   | None \<Rightarrow> Inl (UndefinedVariable (ntext n)))))"
    by (simp add: evalNode_def split: option.splits list.splits)
  have 2: "k n = KVar \<and> (UF D (ntext n) \<noteq> None \<or> BF D (ntext n) \<noteq> None) \<longrightarrow>
        evalNode D (env\<lparr>vars := (vars env)(ntext n \<mapsto> v)\<rparr>) n st = evalNode D env n st"
    by (auto simp: evalNode_def split: option.splits)
  have 3: "k n = KVar \<and> UF D (ntext n) = None \<and> BF D (ntext n) = None \<and> vars env (ntext n) = None \<longrightarrow>
        evalNode D env n st = Inl (UndefinedVariable (ntext n))"
    by (simp add: evalNode_def)
  have 4: "evaluate D ''sin(1)'' (env\<lparr>vars := (vars env)(''sin'' \<mapsto> v)\<rparr>)
        = (Inr (cmath D ''sin'' (strtod D ''1'')), env\<lparr>vars := (vars env)(''sin'' \<mapsto> v)\<rparr>)"
    by (simp add: pipelineDefs charDefs)
  have 5: "vars env ''foo'' = None \<longrightarrow> evaluate D ''foo'' env = (Inl (UndefinedVariable ''foo''), env)"
    by (simp add: pipelineDefs charDefs)
  from 1 2 3 4 5 show ?thesis by blast
qed

theorem variable_resolution_order_witness:
  "k (node3 KVar (0::real) ''sin'') = KVar
   \<and> UF exactReal ''sin'' \<noteq> None
   \<and> evalNode exactReal (emptyEnv\<lparr>vars := (vars emptyEnv)(''sin'' \<mapsto> 5)\<rparr>) (node3 KVar 0 ''sin'') [1]
       = Inr [sin 1]
   \<and> evaluate exactReal ''sin(1)'' (emptyEnv\<lparr>vars := (vars emptyEnv)(''sin'' \<mapsto> 5)\<rparr>)
        = (Inr (sin 1), emptyEnv\<lparr>vars := (vars emptyEnv)(''sin'' \<mapsto> 5)\<rparr>)
   \<and> vars emptyEnv ''foo'' = None
   \<and> evaluate exactReal ''foo'' emptyEnv = (Inl (UndefinedVariable ''foo''), emptyEnv)"
  using variable_resolution_order [of "node3 KVar 0 ''sin''" exactReal emptyEnv "[1]" 5]
  by (simp add: pipelineDefs charDefs exactDefs)

subsection \<open>Division\<close>

lemma applyOp_DivisionByZero:
  "applyOp D opname st = Inl DivisionByZero \<Longrightarrow> opname = ''/'' \<and> deq D (hd st) (dzero D)"
  by (auto simp: applyOp_def split: if_splits)

text \<open>
  C5. The division operator fails with \<open>DivisionByZero\<close> exactly when its right operand
  (the top of the stack) compares equal to \<^verbatim>\<open>0.0\<close>, and is the quotient otherwise; no
  other operator fails so. The line \<^verbatim>\<open>1/0\<close> fails with \<open>DivisionByZero\<close> when the
  literal \<^verbatim>\<open>0\<close> compares equal to \<^verbatim>\<open>0.0\<close>; the line \<^verbatim>\<open>0/1\<close> is the quotient of the two
  literals when the literal \<^verbatim>\<open>1\<close> does not, which is \<open>0\<close> in exact arithmetic.
\<close>

theorem division_by_zero:
  "applyOp D ''/'' (b # a # st) =
     (if deq D b (dzero D) then Inl DivisionByZero else Inr (ddiv D a b))
   \<and> (k n = KOp \<and> ntext n = ''/'' \<longrightarrow>
        evalNode D env n (b # a # st) =
          (if deq D b (dzero D) then Inl DivisionByZero else Inr (ddiv D a b # st)))
   \<and> (applyOp D opname st' = Inl DivisionByZero \<longrightarrow> opname = ''/'' \<and> deq D (hd st') (dzero D))
   \<and> (deq D (strtod D ''0'') (dzero D) \<longrightarrow> evaluate D ''1/0'' env = (Inl DivisionByZero, env))
   \<and> (\<not> deq D (strtod D ''1'') (dzero D) \<longrightarrow>
        evaluate D ''0/1'' env = (Inr (ddiv D (strtod D ''0'') (strtod D ''1'')), env))
   \<and> evaluate exactReal ''1/0'' renv = (Inl DivisionByZero, renv)
   \<and> evaluate exactReal ''0/1'' renv = (Inr 0, renv)"
proof -
  have 1: "applyOp D ''/'' (b # a # st) =
     (if deq D b (dzero D) then Inl DivisionByZero else Inr (ddiv D a b))"
    by (simp add: applyOp_def)
  have 2: "k n = KOp \<and> ntext n = ''/'' \<longrightarrow>
        evalNode D env n (b # a # st) =
          (if deq D b (dzero D) then Inl DivisionByZero else Inr (ddiv D a b # st))"
    by (simp add: evalNode_def applyOp_def)
  have 3: "applyOp D opname st' = Inl DivisionByZero \<longrightarrow> opname = ''/'' \<and> deq D (hd st') (dzero D)"
    using applyOp_DivisionByZero by blast
  have 4: "deq D (strtod D ''0'') (dzero D) \<longrightarrow> evaluate D ''1/0'' env = (Inl DivisionByZero, env)"
    by (simp add: pipelineDefs charDefs)
  have 5: "\<not> deq D (strtod D ''1'') (dzero D) \<longrightarrow>
        evaluate D ''0/1'' env = (Inr (ddiv D (strtod D ''0'') (strtod D ''1'')), env)"
    by (simp add: pipelineDefs charDefs)
  have 6: "evaluate exactReal ''1/0'' renv = (Inl DivisionByZero, renv)"
    by (simp add: pipelineDefs charDefs exactDefs)
  have 7: "evaluate exactReal ''0/1'' renv = (Inr 0, renv)"
    by (simp add: pipelineDefs charDefs exactDefs)
  from 1 2 3 4 5 6 7 show ?thesis by blast
qed

theorem division_by_zero_witness:
  "k (node3 KOp (0::real) ''/'') = KOp \<and> ntext (node3 KOp (0::real) ''/'') = ''/''
   \<and> evalNode exactReal emptyEnv (node3 KOp 0 ''/'') [0, 1] = Inl DivisionByZero
   \<and> evalNode exactReal emptyEnv (node3 KOp 0 ''/'') [4, 1] = Inr [1 / 4]
   \<and> deq exactReal (strtod exactReal ''0'') (dzero exactReal)
   \<and> \<not> deq exactReal (strtod exactReal ''1'') (dzero exactReal)
   \<and> evaluate exactReal ''1/0'' emptyEnv = (Inl DivisionByZero, emptyEnv)
   \<and> evaluate exactReal ''0/1'' emptyEnv = (Inr 0, emptyEnv)"
  using division_by_zero [of exactReal 0 1 "[]" "node3 KOp 0 ''/''" emptyEnv "''/''" "[0, 1]" emptyEnv]
    division_by_zero [of exactReal 4 1 "[]" "node3 KOp 0 ''/''" emptyEnv "''/''" "[0, 1]" emptyEnv]
  by (simp add: pipelineDefs charDefs exactDefs)

subsection \<open>The shape of an assignment\<close>

lemma applyOp_not_InvalidAssignment: "applyOp D opname st \<noteq> Inl InvalidAssignment"
  by (simp add: applyOp_def)

lemma evalNode_not_InvalidAssignment: "evalNode D env n st \<noteq> Inl InvalidAssignment"
proof (cases "applyOp D (ntext n) st")
  case (Inl e)
  with applyOp_not_InvalidAssignment [of D "ntext n" st] have "e \<noteq> InvalidAssignment" by auto
  with Inl show ?thesis
    by (simp add: evalNode_def Let_def split: option.splits list.splits)
next
  case (Inr v)
  then show ?thesis
    by (simp add: evalNode_def Let_def split: option.splits list.splits)
qed

lemma evalLoop_not_InvalidAssignment: "evalLoop D env ns st \<noteq> Inl InvalidAssignment"
proof (induction ns arbitrary: st)
  case Nil
  show ?case by simp
next
  case (Cons n ns)
  show ?case
    using evalNode_not_InvalidAssignment [of D env n st] Cons.IH
    by (cases "evalNode D env n st") auto
qed

lemma evalLoop_skips_assign:
  "evalLoop D env ns st = evalLoop D env (filter (\<lambda>n. k n \<noteq> KAssign) ns) st"
proof (induction ns arbitrary: st)
  case Nil
  show ?case by simp
next
  case (Cons n ns)
  show ?case
  proof (cases "k n = KAssign")
    case True
    then have "evalNode D env n st = Inr st" by (simp add: evalNode_def)
    with True Cons.IH show ?thesis by simp
  next
    case False
    with Cons.IH show ?thesis by (simp split: sum.splits)
  qed
qed

text \<open>
  C6, as the claim states it, fails: an \<open>Assignment\<close> node among the right-hand side
  nodes does not fail with \<open>InvalidAssignment\<close>. The sequence \<open>[x, =, 5, =]\<close> assigns
  \<open>5\<close> to \<open>x\<close>.
\<close>

theorem extra_assignment_accepted:
  "evalRPN exactReal
     [node3 KVar 0 ''x'', node1 exactReal KAssign, node2 KNum 5, node1 exactReal KAssign] emptyEnv
   = (Inr 5, emptyEnv\<lparr>vars := (vars emptyEnv)(''x'' \<mapsto> 5)\<rparr>)"
  by (simp add: pipelineDefs exactDefs)

text \<open>
  C6, amended. For a node sequence with an \<open>Assignment\<close> node, the evaluator fails with
  \<open>InvalidAssignment\<close> exactly when the sequence has fewer than three nodes, or its first
  node is not a \<open>Variable\<close>, or its second node is not an \<open>Assignment\<close>. The nodes after
  the second are evaluated as the right-hand side, and an \<open>Assignment\<close> node among them
  is skipped: the right-hand side evaluates as it does without such nodes.
\<close>

theorem assignment_shape:
  "hasAssign rpn \<Longrightarrow>
     (fst (evalRPN D rpn env) = Inl InvalidAssignment
        \<longleftrightarrow> length rpn < 3 \<or> k (rpn ! 0) \<noteq> KVar \<or> k (rpn ! 1) \<noteq> KAssign)
     \<and> evalLoop D env (drop 2 rpn) st
         = evalLoop D env (filter (\<lambda>n. k n \<noteq> KAssign) (drop 2 rpn)) st"
proof (intro conjI)
  assume h: "hasAssign rpn"
  show "fst (evalRPN D rpn env) = Inl InvalidAssignment
        \<longleftrightarrow> length rpn < 3 \<or> k (rpn ! 0) \<noteq> KVar \<or> k (rpn ! 1) \<noteq> KAssign"
  proof (cases "length rpn < 3 \<or> k (rpn ! 0) \<noteq> KVar \<or> k (rpn ! 1) \<noteq> KAssign")
    case True
    with h show ?thesis by (simp add: evalRPN_def)
  next
    case False
    have "fst (evalRPN D rpn env) \<noteq> Inl InvalidAssignment"
    proof (cases "evalLoop D env (drop 2 rpn) []")
      case (Inl e)
      with evalLoop_not_InvalidAssignment [of D env "drop 2 rpn" "[]"]
      have "e \<noteq> InvalidAssignment" by auto
      with h False Inl show ?thesis by (simp add: evalRPN_def Let_def)
    next
      case (Inr v)
      with h False show ?thesis by (simp add: evalRPN_def Let_def)
    qed
    with False show ?thesis by simp
  qed
next
  show "evalLoop D env (drop 2 rpn) st
         = evalLoop D env (filter (\<lambda>n. k n \<noteq> KAssign) (drop 2 rpn)) st"
    by (rule evalLoop_skips_assign)
qed

theorem assignment_shape_witness:
  "hasAssign [node2 KNum (5::real), node1 exactReal KAssign, node3 KVar 0 ''x'']
   \<and> fst (evalRPN exactReal [node2 KNum 5, node1 exactReal KAssign, node3 KVar 0 ''x''] emptyEnv)
       = Inl InvalidAssignment
   \<and> hasAssign [node3 KVar (0::real) ''x'', node1 exactReal KAssign, node2 KNum 5]
   \<and> evalRPN exactReal [node3 KVar 0 ''x'', node1 exactReal KAssign, node2 KNum 5] emptyEnv
       = (Inr 5, emptyEnv\<lparr>vars := (vars emptyEnv)(''x'' \<mapsto> 5)\<rparr>)"
proof -
  have h: "hasAssign [node2 KNum (5::real), node1 exactReal KAssign, node3 KVar 0 ''x'']"
    by (simp add: hasAssign_def node1_def node2_def node3_def)
  have h': "hasAssign [node3 KVar (0::real) ''x'', node1 exactReal KAssign, node2 KNum 5]"
    by (simp add: hasAssign_def node1_def node2_def node3_def)
  have a: "fst (evalRPN exactReal [node2 KNum 5, node1 exactReal KAssign, node3 KVar 0 ''x''] emptyEnv)
       = Inl InvalidAssignment"
    using assignment_shape [OF h, of exactReal emptyEnv "[]"]
    by (simp add: node1_def node2_def node3_def)
  have b: "evalRPN exactReal [node3 KVar 0 ''x'', node1 exactReal KAssign, node2 KNum 5] emptyEnv
       = (Inr 5, emptyEnv\<lparr>vars := (vars emptyEnv)(''x'' \<mapsto> 5)\<rparr>)"
    by (simp add: pipelineDefs exactDefs)
  from h h' a b show ?thesis by blast
qed

subsection \<open>The environment after a line\<close>

lemma evalRPN_error_env: "fst (evalRPN D rpn env) = Inl e \<Longrightarrow> snd (evalRPN D rpn env) = env"
  by (auto simp: evalRPN_def Let_def split: if_splits sum.splits)

lemma evalRPN_write:
  "snd (evalRPN D rpn env) \<noteq> env \<Longrightarrow>
     \<exists>name v. fst (evalRPN D rpn env) = Inr v
        \<and> snd (evalRPN D rpn env) = env\<lparr>vars := (vars env)(name \<mapsto> v)\<rparr>"
  by (auto simp: evalRPN_def Let_def split: if_splits sum.splits)

text \<open>
  C7. When the pipeline fails on a line, with any error, the environment afterwards is
  the environment before. The environment changes only when the line succeeds, and then
  by one write: the value returned is stored under one name (the write of line 207,
  after the right-hand side of an assignment has evaluated to a single value).
\<close>

theorem failed_line_keeps_env:
  "(fst (evaluate D line env) = Inl e \<longrightarrow> snd (evaluate D line env) = env)
   \<and> (snd (evaluate D line env) \<noteq> env \<longrightarrow>
        (\<exists>name v. fst (evaluate D line env) = Inr v
           \<and> snd (evaluate D line env) = env\<lparr>vars := (vars env)(name \<mapsto> v)\<rparr>))"
proof (intro conjI impI)
  assume "fst (evaluate D line env) = Inl e"
  then show "snd (evaluate D line env) = env"
    by (auto simp: evaluate_def split: sum.splits dest: evalRPN_error_env)
next
  assume "snd (evaluate D line env) \<noteq> env"
  then show "\<exists>name v. fst (evaluate D line env) = Inr v
           \<and> snd (evaluate D line env) = env\<lparr>vars := (vars env)(name \<mapsto> v)\<rparr>"
    by (auto simp: evaluate_def split: sum.splits dest: evalRPN_write)
qed

theorem failed_line_keeps_env_witness:
  "fst (evaluate exactReal ''1/0'' (initEnv exactReal)) = Inl DivisionByZero
   \<and> snd (evaluate exactReal ''1/0'' (initEnv exactReal)) = initEnv exactReal
   \<and> snd (evaluate exactReal ''(x=) 5'' emptyEnv) \<noteq> emptyEnv
   \<and> evaluate exactReal ''(x=) 5'' emptyEnv = (Inr 5, emptyEnv\<lparr>vars := (vars emptyEnv)(''x'' \<mapsto> 5)\<rparr>)"
proof -
  have h: "fst (evaluate exactReal ''1/0'' (initEnv exactReal)) = Inl DivisionByZero"
    by (simp add: pipelineDefs charDefs exactDefs)
  have a: "evaluate exactReal ''(x=) 5'' emptyEnv
      = (Inr 5, emptyEnv\<lparr>vars := (vars emptyEnv)(''x'' \<mapsto> 5)\<rparr>)"
    by (simp add: pipelineDefs charDefs exactDefs)
  have "vars (emptyEnv\<lparr>vars := (vars emptyEnv)(''x'' \<mapsto> 5)\<rparr>) ''x'' \<noteq> vars emptyEnv ''x''"
    by (simp add: emptyEnv_def)
  then have "emptyEnv\<lparr>vars := (vars emptyEnv)(''x'' \<mapsto> 5)\<rparr> \<noteq> emptyEnv"
    by (metis)
  with a have b: "snd (evaluate exactReal ''(x=) 5'' emptyEnv) \<noteq> emptyEnv" by simp
  from h a b failed_line_keeps_env [of exactReal "''1/0''" "initEnv exactReal" DivisionByZero]
  show ?thesis by blast
qed


text \<open>
  C10. For a node sequence with no \<open>Assignment\<close> node, the environment after \<^verbatim>\<open>evalRPN\<close>
  is the environment before it, variable mapping and precision, whether the evaluation
  succeeds or fails.
\<close>

theorem no_assignment_keeps_env:
  "\<not> hasAssign rpn \<Longrightarrow>
     vars (snd (evalRPN D rpn env)) = vars env
     \<and> precision (snd (evalRPN D rpn env)) = precision env
     \<and> snd (evalRPN D rpn env) = env"
  by (auto simp: evalRPN_def split: sum.splits)

theorem no_assignment_keeps_env_witness:
  "\<not> hasAssign [node2 KNum (1::real), node2 KNum 2, node3 KOp 0 ''+'']
   \<and> evalRPN exactReal [node2 KNum 1, node2 KNum 2, node3 KOp 0 ''+''] (initEnv exactReal)
       = (Inr 3, initEnv exactReal)
   \<and> \<not> hasAssign [node2 KNum (1::real), node3 KOp 0 ''+'']
   \<and> evalRPN exactReal [node2 KNum 1, node3 KOp 0 ''+''] (initEnv exactReal)
       = (Inl (StackUnderflow ''+''), initEnv exactReal)"
proof -
  have h1: "\<not> hasAssign [node2 KNum (1::real), node2 KNum 2, node3 KOp 0 ''+'']"
    by (simp add: hasAssign_def node2_def node3_def)
  have h2: "\<not> hasAssign [node2 KNum (1::real), node3 KOp 0 ''+'']"
    by (simp add: hasAssign_def node2_def node3_def)
  have a: "fst (evalRPN exactReal [node2 KNum 1, node2 KNum 2, node3 KOp 0 ''+''] (initEnv exactReal))
       = Inr 3"
    by (simp add: pipelineDefs exactDefs)
  have b: "fst (evalRPN exactReal [node2 KNum 1, node3 KOp 0 ''+''] (initEnv exactReal))
       = Inl (StackUnderflow ''+'')"
    by (simp add: pipelineDefs exactDefs)
  from a no_assignment_keeps_env [OF h1, of exactReal "initEnv exactReal"]
  have a': "evalRPN exactReal [node2 KNum 1, node2 KNum 2, node3 KOp 0 ''+''] (initEnv exactReal)
       = (Inr 3, initEnv exactReal)"
    by (simp add: prod_eq_iff)
  from b no_assignment_keeps_env [OF h2, of exactReal "initEnv exactReal"]
  have b': "evalRPN exactReal [node2 KNum 1, node3 KOp 0 ''+''] (initEnv exactReal)
       = (Inl (StackUnderflow ''+''), initEnv exactReal)"
    by (simp add: prod_eq_iff)
  from h1 h2 a' b' show ?thesis by blast
qed

subsection \<open>A call inside a call\<close>

lemma sqrt2_pow9: "sqrt 2 ^ 9 = 16 * sqrt 2"
proof -
  have "sqrt 2 ^ 9 = (sqrt 2 ^ 2) ^ 4 * sqrt 2"
    by (simp only: power_mult [symmetric] power_Suc2 [symmetric]) simp
  then show ?thesis by simp
qed

text \<open>
  C8. The normaliser copies the arguments of a call as they are, so the call inside
  \<^verbatim>\<open>pow(2, sqrt(9))\<close> is not rewritten: the line becomes \<^verbatim>\<open>(2  sqrt(9)) pow\<close>, whose
  nodes are \<open>[2, sqrt, 9, pow]\<close>, and the result is \<open>pow(sqrt(2), 9)\<close>, not
  \<open>pow(2, sqrt(9))\<close>. In exact arithmetic that is \<open>16 * sqrt 2\<close>, which is not \<open>8\<close>.
\<close>

theorem nested_call_misparsed:
  "preprocessFuncCalls ''pow(2, sqrt(9))'' = Inr ''(2  sqrt(9)) pow''
   \<and> toRPN D ''(2  sqrt(9)) pow''
       = Inr [node2 KNum (strtod D ''2''), node3 KVar (dzero D) ''sqrt'',
              node2 KNum (strtod D ''9''), node3 KVar (dzero D) ''pow'']
   \<and> evaluate D ''pow(2, sqrt(9))'' env
       = (Inr (cpow D (cmath D ''sqrt'' (strtod D ''2'')) (strtod D ''9'')), env)
   \<and> evaluate exactReal ''pow(2, sqrt(9))'' renv = (Inr (16 * sqrt 2), renv)
   \<and> fst (evaluate exactReal ''pow(2, sqrt(9))'' renv) \<noteq> Inr 8"
proof -
  have 1: "preprocessFuncCalls ''pow(2, sqrt(9))'' = Inr ''(2  sqrt(9)) pow''"
    by (simp add: preprocessFuncCalls_def charDefs)
  have 2: "toRPN D ''(2  sqrt(9)) pow''
       = Inr [node2 KNum (strtod D ''2''), node3 KVar (dzero D) ''sqrt'',
              node2 KNum (strtod D ''9''), node3 KVar (dzero D) ''pow'']"
    by (simp add: pipelineDefs charDefs)
  have 3: "evaluate D ''pow(2, sqrt(9))'' env
       = (Inr (cpow D (cmath D ''sqrt'' (strtod D ''2'')) (strtod D ''9'')), env)"
    by (simp add: pipelineDefs charDefs)
  have 4: "evaluate exactReal ''pow(2, sqrt(9))'' renv = (Inr (16 * sqrt 2), renv)"
    by (simp add: pipelineDefs charDefs exactDefs power_int_def sqrt2_pow9)
  have "1 < sqrt 2" by simp
  then have "16 * sqrt 2 \<noteq> 8" by linarith
  with 4 have 5: "fst (evaluate exactReal ''pow(2, sqrt(9))'' renv) \<noteq> Inr 8" by simp
  from 1 2 3 4 5 show ?thesis by blast
qed

theorem nested_call_misparsed_witness:
  "evaluate exactReal ''pow(2, sqrt(9))'' emptyEnv = (Inr (16 * sqrt 2), emptyEnv)
   \<and> fst (evaluate exactReal ''pow(2, sqrt(9))'' emptyEnv) \<noteq> Inr 8"
  using nested_call_misparsed [of exactReal emptyEnv emptyEnv] by blast

subsection \<open>The lexer: exponent markers\<close>

lemma isdigit_not_space: "isdigit c \<Longrightarrow> \<not> isspace c"
  by (auto simp: isdigit_def isspace_def)

lemma isdigit_not_dot: "isdigit c \<Longrightarrow> c \<noteq> CHR ''.''"
  by (auto simp: isdigit_def)

lemma isdigit_not_sign: "isdigit c \<Longrightarrow> c \<noteq> CHR ''+'' \<and> c \<noteq> CHR ''-''"
  by (auto simp: isdigit_def)

lemma takeWhile_digits:
  "\<forall>c \<in> set es. isdigit c \<Longrightarrow> rest = [] \<or> \<not> isdigit (hd rest) \<Longrightarrow>
     takeWhile isdigit (es @ rest) = es \<and> dropWhile isdigit (es @ rest) = rest"
  by (cases rest) (simp_all add: takeWhile_append2 dropWhile_append2)

lemma scanMantissa_seen:
  "\<forall>c \<in> set f. isdigit c \<Longrightarrow> x = [] \<or> \<not> isdigit (hd x) \<Longrightarrow> scanMantissa True (f @ x) = (f, x)"
proof (induction f)
  case Nil
  then show ?case by (cases x) simp_all
next
  case (Cons c f)
  then show ?case by (simp add: isdigit_not_dot)
qed

lemma scanMantissa_unseen:
  assumes "\<forall>c \<in> set ip. isdigit c"
    and "x = [] \<or> (\<not> isdigit (hd x) \<and> hd x \<noteq> CHR ''.'')"
  shows "scanMantissa False (ip @ x) = (ip, x)"
  using assms
proof (induction ip)
  case Nil
  then show ?case by (cases x) simp_all
next
  case (Cons c ip)
  then show ?case by (simp add: isdigit_not_dot)
qed

lemma scanMantissa_dot:
  assumes "\<forall>c \<in> set ip. isdigit c" and "\<forall>c \<in> set f. isdigit c"
    and "x = [] \<or> \<not> isdigit (hd x)"
  shows "scanMantissa False (ip @ CHR ''.'' # f @ x) = (ip @ CHR ''.'' # f, x)"
  using assms(1)
proof (induction ip)
  case Nil
  show ?case using scanMantissa_seen [OF assms(2) assms(3)] by simp
next
  case (Cons c ip)
  then show ?case by (simp add: isdigit_not_dot)
qed

lemma scanMantissa_mantissa:
  assumes ip: "\<forall>c \<in> set ip. isdigit c" and f: "\<forall>c \<in> set f. isdigit c"
    and mant: "ip @ (if dot then CHR ''.'' # f else []) = c # mt"
    and x: "x = [] \<or> (\<not> isdigit (hd x) \<and> hd x \<noteq> CHR ''.'')"
  shows "(isdigit c \<or> c = CHR ''.'') \<and> scanMantissa (c = CHR ''.'') (mt @ x) = (mt, x)"
proof (cases ip)
  case Nil
  with mant have d: "dot" and c: "c = CHR ''.''" and mt: "mt = f"
    by (auto split: if_splits)
  from x have "x = [] \<or> \<not> isdigit (hd x)" by blast
  from scanMantissa_seen [OF f this] c mt show ?thesis by simp
next
  case (Cons d ip')
  with mant have c: "c = d" and mt: "mt = ip' @ (if dot then CHR ''.'' # f else [])" by auto
  from ip Cons have dc: "isdigit c" and ip': "\<forall>c \<in> set ip'. isdigit c" using c by auto
  show ?thesis
  proof (cases dot)
    case True
    from x have "x = [] \<or> \<not> isdigit (hd x)" by blast
    from scanMantissa_dot [OF ip' f this] mt True dc show ?thesis
      by (simp add: isdigit_not_dot)
  next
    case False
    from scanMantissa_unseen [OF ip' x] mt False dc show ?thesis
      by (simp add: isdigit_not_dot)
  qed
qed

lemma scanExponent_marker:
  assumes m: "m = CHR ''e'' \<or> m = CHR ''E''"
    and sg: "sg = [] \<or> sg = ''+'' \<or> sg = ''-''"
    and es: "\<forall>c \<in> set es. isdigit c"
    and rest: "rest = [] \<or> \<not> isdigit (hd rest)"
    and nosign: "sg = [] \<and> es = [] \<longrightarrow> rest = [] \<or> (hd rest \<noteq> CHR ''+'' \<and> hd rest \<noteq> CHR ''-'')"
  shows "scanExponent (m # sg @ es @ rest) =
           (if es \<noteq> [] then (m # sg @ es, rest) else ([], m # sg @ es @ rest))"
proof -
  note tw = takeWhile_digits [OF es rest]
  from sg consider (none) "sg = []" | (some) "sg = ''+'' \<or> sg = ''-''" by blast
  then show ?thesis
  proof cases
    case none
    show ?thesis
    proof (cases es)
      case Nil
      with none nosign rest m show ?thesis
        by (cases rest) (auto simp: scanExponent_def)
    next
      case (Cons d ds)
      with es have "isdigit d" by simp
      then have "d \<noteq> CHR ''+'' \<and> d \<noteq> CHR ''-''" by (rule isdigit_not_sign)
      with none m tw Cons show ?thesis
        by (auto simp: scanExponent_def)
    qed
  next
    case some
    with m tw show ?thesis
      by (auto simp: scanExponent_def)
  qed
qed

text \<open>
  C9. After the mantissa of a number literal (digits with at most one point) the lexer
  looks at an exponent marker \<^verbatim>\<open>e\<close> or \<^verbatim>\<open>E\<close> and an optional sign. When at least one
  digit follows, marker, sign and digits are part of the \<open>Number\<close> token; when none
  follows, the token ends before the marker, which is left unread and starts the next
  token, an identifier. So \<^verbatim>\<open>1e\<close> is the number \<^verbatim>\<open>1\<close> and then the identifier \<^verbatim>\<open>e\<close>,
  and \<^verbatim>\<open>1e+2\<close> is one number, \<open>100\<close>.
\<close>

theorem exponent_marker:
  assumes "\<forall>c \<in> set ip. isdigit c" and "\<forall>c \<in> set f. isdigit c"
    and "mant = ip @ (if dot then CHR ''.'' # f else [])" and "mant \<noteq> []"
    and "m = CHR ''e'' \<or> m = CHR ''E''"
    and "sg = [] \<or> sg = ''+'' \<or> sg = ''-''"
    and "\<forall>c \<in> set es. isdigit c"
    and "rest = [] \<or> \<not> isdigit (hd rest)"
    and "sg = [] \<and> es = [] \<longrightarrow> rest = [] \<or> (hd rest \<noteq> CHR ''+'' \<and> hd rest \<noteq> CHR ''-'')"
  shows "next D (mant @ m # sg @ es @ rest) =
           (if es \<noteq> [] then Inr (mkToken Number (strtod D (mant @ m # sg @ es)) [], rest)
            else Inr (mkToken Number (strtod D mant) [], m # sg @ rest))
         \<and> next D (m # sg @ rest) =
             Inr (mkToken Ident (dzero D) (m # takeWhile isIdentChar (sg @ rest)),
                  dropWhile isIdentChar (sg @ rest))
         \<and> next D ''1e'' = Inr (mkToken Number (strtod D ''1'') [], ''e'')
         \<and> next D ''e'' = Inr (mkToken Ident (dzero D) ''e'', [])
         \<and> next D ''1e+2'' = Inr (mkToken Number (strtod D ''1e+2'') [], [])
         \<and> strtod exactReal ''1'' = 1 \<and> strtod exactReal ''1e+2'' = 100"
proof -
  obtain c mt where cm: "mant = c # mt" using assms(4) by (cases mant) auto
  have x: "m # sg @ es @ rest = [] \<or>
      (\<not> isdigit (hd (m # sg @ es @ rest)) \<and> hd (m # sg @ es @ rest) \<noteq> CHR ''.'')"
    using assms(5) by (auto simp: isdigit_def)
  from scanMantissa_mantissa [OF assms(1) assms(2) _ x, of dot c mt] assms(3) cm
  have c: "isdigit c \<or> c = CHR ''.''"
    and sm: "scanMantissa (c = CHR ''.'') (mt @ m # sg @ es @ rest) = (mt, m # sg @ es @ rest)"
    by auto
  from c have nsp: "\<not> isspace c" by (auto simp: isdigit_def isspace_def)
  note se = scanExponent_marker [OF assms(5) assms(6) assms(7) assms(8) assms(9)]
  have 1: "next D (mant @ m # sg @ es @ rest) =
           (if es \<noteq> [] then Inr (mkToken Number (strtod D (mant @ m # sg @ es)) [], rest)
            else Inr (mkToken Number (strtod D mant) [], m # sg @ rest))"
    using cm c nsp sm se by (simp add: next_def)
  have mi: "isIdentStart m" "\<not> isspace m" "\<not> isdigit m" "m \<noteq> CHR ''.''"
    using assms(5) by (auto simp: isIdentStart_def isalpha_def isspace_def isdigit_def)
  have 2: "next D (m # sg @ rest) =
             Inr (mkToken Ident (dzero D) (m # takeWhile isIdentChar (sg @ rest)),
                  dropWhile isIdentChar (sg @ rest))"
    using mi by (simp add: next_def)
  have 3: "next D ''1e'' = Inr (mkToken Number (strtod D ''1'') [], ''e'')"
    by (simp add: next_def scanExponent_def isspace_def isdigit_def)
  have 4: "next D ''e'' = Inr (mkToken Ident (dzero D) ''e'', [])"
    by (simp add: next_def isspace_def isdigit_def isIdentStart_def isalpha_def)
  have 5: "next D ''1e+2'' = Inr (mkToken Number (strtod D ''1e+2'') [], [])"
    by (simp add: next_def scanExponent_def isspace_def isdigit_def)
  have 6: "strtod exactReal ''1'' = 1" "strtod exactReal ''1e+2'' = 100"
    by (simp_all add: exactReal_def strtodExact_def exponentVal_def decimalNat_def digitVal_def isdigit_def)
  from 1 2 3 4 5 6 show ?thesis by blast
qed

theorem exponent_marker_witness:
  "next exactReal ''1.5e-3x'' = Inr (mkToken Number (3 / 2000) [], ''x'')
   \<and> next exactReal ''1.5e-x'' = Inr (mkToken Number (3 / 2) [], ''e-x'')
   \<and> next exactReal ''1e'' = Inr (mkToken Number 1 [], ''e'')
   \<and> next exactReal ''e'' = Inr (mkToken Ident 0 ''e'', [])
   \<and> next exactReal ''1e+2'' = Inr (mkToken Number 100 [], [])"
proof -
  have d: "\<forall>c \<in> set ''1''. isdigit c" "\<forall>c \<in> set ''5''. isdigit c" "\<forall>c \<in> set ''3''. isdigit c"
    "\<forall>c \<in> set ''''. isdigit c"
    by (simp_all add: isdigit_def)
  have r: "''x'' = [] \<or> \<not> isdigit (hd ''x'')" by (simp add: isdigit_def)
  have a: "next exactReal (''1.5'' @ CHR ''e'' # ''-'' @ ''3'' @ ''x'') =
      Inr (mkToken Number (strtod exactReal (''1.5'' @ CHR ''e'' # ''-'' @ ''3'')) [], ''x'')"
    using exponent_marker [OF d(1) d(2), of "''1.5''" True "CHR ''e''" "''-''" "''3''" "''x''" exactReal] d(3) r
    by simp
  have b: "next exactReal (''1.5'' @ CHR ''e'' # ''-'' @ '''' @ ''x'') =
      Inr (mkToken Number (strtod exactReal ''1.5'') [], CHR ''e'' # ''-'' @ ''x'')"
    using exponent_marker [OF d(1) d(2), of "''1.5''" True "CHR ''e''" "''-''" "''''" "''x''" exactReal] r
    by simp
  have v: "strtod exactReal ''1.5e-3'' = 3 / 2000" "strtod exactReal ''1.5'' = 3 / 2"
    "dzero exactReal = 0"
    by (simp_all add: exactReal_def strtodExact_def exponentVal_def decimalNat_def digitVal_def
        isdigit_def power_int_def power_divide)
  from exponent_marker [OF d(1) d(2), of "''1.5''" True "CHR ''e''" "''-''" "''3''" "''x''" exactReal] d(3) r
  have c: "next exactReal ''1e'' = Inr (mkToken Number (strtod exactReal ''1'') [], ''e'')
         \<and> next exactReal ''e'' = Inr (mkToken Ident (dzero exactReal) ''e'', [])
         \<and> next exactReal ''1e+2'' = Inr (mkToken Number (strtod exactReal ''1e+2'') [], [])
         \<and> strtod exactReal ''1'' = 1 \<and> strtod exactReal ''1e+2'' = 100"
    by simp
  from a b c v show ?thesis by simp
qed

subsection \<open>Operator precedence: the evaluator on postfix order\<close>

lemma toRPN_loop_tokens:
  "tokenize D s = Inr toks \<Longrightarrow> toRPN_loop D s prev out ops = rpnTokens D toks prev out ops"
proof (induction D s arbitrary: toks prev out ops rule: tokenize.induct)
  case (1 D s)
  show ?case
  proof (cases "next D s")
    case (Inl e)
    with "1.prems" show ?thesis by (simp add: tokenize.simps [of D s])
  next
    case (Inr p)
    obtain tok s' where p: "p = (tok, s')" by (cases p)
    show ?thesis
    proof (cases "t tok = End")
      case True
      with Inr p "1.prems" show ?thesis
        by (simp add: tokenize.simps [of D s] toRPN_loop.simps [of D s])
    next
      case False
      with Inr p "1.prems" obtain toks' where tk: "tokenize D s' = Inr toks'" and toks: "toks = tok # toks'"
        by (auto simp: tokenize.simps [of D s] split: sum.splits)
      show ?thesis
      proof (cases "rpnStep D tok prev out ops")
        case (Inl e)
        with Inr p False toks show ?thesis by (simp add: toRPN_loop.simps [of D s])
      next
        case (Inr q)
        obtain out' ops' where q: "q = (out', ops')" by (cases q)
        from "1.IH" [OF \<open>next D s = Inr p\<close> p [symmetric] False tk, of tok out' ops']
        show ?thesis
          using \<open>next D s = Inr p\<close> p False toks Inr q by (simp add: toRPN_loop.simps [of D s])
      qed
    qed
  qed
qed

lemma evalNode_op:
  "evalNode D env (node3 KOp z (binSym b)) (y # x # st) =
     (case applyBin D b x y of Inl e \<Rightarrow> Inl e | Inr v \<Rightarrow> Inr (v # st))"
  by (cases b) (simp_all add: evalNode_def node3_def applyOp_def)

lemma evalNode_neg: "evalNode D env (node3 KOp z ''u-'') (x # st) = Inr (dneg D x # st)"
  by (simp add: evalNode_def node3_def applyOp_def)

lemma evalNode_num: "evalNode D env (node2 KNum v) st = Inr (v # st)"
  by (simp add: evalNode_def node2_def)

lemma evalLoop_append:
  "evalLoop D env (ms @ ns) st =
     (case evalLoop D env ms st of Inl e \<Rightarrow> Inl e | Inr st' \<Rightarrow> evalLoop D env ns st')"
  by (induction ms arbitrary: st) (auto split: sum.splits)

lemma evalLoop_postfix:
  "evalLoop D env (postfix D e) st =
     (case evalExpr D e of Inl err \<Rightarrow> Inl err | Inr v \<Rightarrow> Inr (v # st))"
proof (induction e arbitrary: st)
  case (Lit v)
  show ?case by (simp add: evalNode_num)
next
  case (Neg a)
  show ?case by (simp add: evalLoop_append Neg.IH evalNode_neg split: sum.splits)
next
  case (Bin b l r)
  show ?case
    by (simp add: evalLoop_append Bin.IH evalNode_op split: sum.splits)
qed

lemma postfix_kinds: "n \<in> set (postfix D e) \<Longrightarrow> k n = KNum \<or> k n = KOp"
  by (induction e) (auto simp: node2_def node3_def)

lemma evalRPN_postfix: "evalRPN D (postfix D e) env = (evalExpr D e, env)"
proof -
  have "\<not> hasAssign (postfix D e)"
    using postfix_kinds [of _ D e] by (fastforce simp: hasAssign_def)
  then show ?thesis
    by (cases "evalExpr D e") (simp_all add: evalRPN_def evalLoop_postfix)
qed

subsection \<open>Operator precedence: the shunting-yard loop on the grammar\<close>

lemma OP_cases:
  "OP opname = Some oi \<Longrightarrow>
     oi = mkOp 1 False 2 \<or> oi = mkOp 2 False 2 \<or> oi = mkOp 3 True 2 \<or> oi = mkOp 4 True 1"
  by (auto simp: OP_def split: if_splits)

lemma popOps_stops: "stopsAt oi ops \<Longrightarrow> popOps oi out ops = (out, ops)"
  by (cases ops) (auto simp: stopsAt_def wouldPop_def split: option.splits)

lemma popOps_pending:
  assumes "\<forall>n \<in> set P. pendingOp q n" and "\<forall>topi. q \<le> prec topi \<longrightarrow> wouldPop oi topi"
    and "stopsAt oi ops"
  shows "popOps oi out (P @ ops) = (out @ P, ops)"
  using assms(1)
proof (induction P arbitrary: out)
  case Nil
  show ?case using popOps_stops [OF assms(3)] by simp
next
  case (Cons n P)
  from Cons.prems obtain topi where n: "k n = KOp" "OP (ntext n) = Some topi" "q \<le> prec topi"
    by (auto simp: pendingOp_def)
  with assms(2) have "wouldPop oi topi" by blast
  with n Cons show ?case by (simp add: wouldPop_def)
qed

lemma pendingOp_not_lparen: "pendingOp q n \<Longrightarrow> \<not> isLParenNode n"
  by (auto simp: pendingOp_def isLParenNode_def OP_def)

lemma popToLParen_pending:
  "\<forall>n \<in> set P. pendingOp q n \<Longrightarrow> isLParenNode lp \<Longrightarrow>
     popToLParen out (P @ lp # ops) = (out @ P, lp # ops)"
  by (induction P arbitrary: out) (auto dest: pendingOp_not_lparen)

lemma rpnFinish_pending: "\<forall>n \<in> set P. pendingOp q n \<Longrightarrow> rpnFinish out P = Inr (out @ P)"
  by (induction P arbitrary: out) (auto dest: pendingOp_not_lparen)

lemma pendingOp_mono: "pendingOp q n \<Longrightarrow> p \<le> q \<Longrightarrow> pendingOp p n"
  by (auto simp: pendingOp_def)

lemma ctx_mono: "ctx p ops \<Longrightarrow> p \<le> q \<Longrightarrow> ctx q ops"
  by (auto simp: ctx_def)

lemma ctx_lparen: "ctx p ops \<Longrightarrow> ctx q (node3 KOp z ''('' # ops)"
  by (auto simp: ctx_def stopsAt_def node3_def OP_def)

lemma ctx_push:
  assumes "ctx p ops" and "OP opname = Some oi"
    and "\<forall>opname' oi'. OP opname' = Some oi' \<and> q \<le> prec oi' \<longrightarrow> \<not> wouldPop oi' oi"
  shows "ctx q (node3 KOp z opname # ops)"
  using assms by (auto simp: ctx_def stopsAt_def node3_def)

lemma parsesTo_up: "parsesTo D q toks e \<Longrightarrow> p \<le> q \<Longrightarrow> parsesTo D p toks e"
  unfolding parsesTo_def
  by (meson ctx_mono pendingOp_mono)

lemma parsesToE:
  assumes "parsesTo D p toks e" and "isUnaryPos (t prev)" and "ctx p ops"
  obtains X P where "X @ P = postfix D e" and "\<forall>n \<in> set P. pendingOp p n"
    and "\<And>rest. rpnTokens D (toks @ rest) prev out ops
                 = rpnTokens D rest (last toks) (out @ X) (P @ ops)"
proof -
  from assms have "\<exists>X P. X @ P = postfix D e \<and> (\<forall>n \<in> set P. pendingOp p n)
             \<and> (\<forall>rest. rpnTokens D (toks @ rest) prev out ops
                        = rpnTokens D rest (last toks) (out @ X) (P @ ops))"
    unfolding parsesTo_def by blast
  then show ?thesis using that by blast
qed

lemma parsesToI:
  assumes "toks \<noteq> []" and "\<not> isUnaryPos (t (last toks))"
    and "\<And>prev out ops. isUnaryPos (t prev) \<Longrightarrow> ctx p ops \<Longrightarrow>
          \<exists>X P. X @ P = postfix D e \<and> (\<forall>n \<in> set P. pendingOp p n)
             \<and> (\<forall>rest. rpnTokens D (toks @ rest) prev out ops
                        = rpnTokens D rest (last toks) (out @ X) (P @ ops))"
  shows "parsesTo D p toks e"
  unfolding parsesTo_def using assms by blast

lemma parsesTo_last:
  "parsesTo D p toks e \<Longrightarrow> toks \<noteq> [] \<and> \<not> isUnaryPos (t (last toks))"
  by (simp add: parsesTo_def)

lemma parsesTo_num:
  assumes "t tok = Number"
  shows "parsesTo D p [tok] (Lit (value tok))"
proof (rule parsesToI)
  show "[tok] \<noteq> []" by simp
  show "\<not> isUnaryPos (t (last [tok]))" using assms by (simp add: isUnaryPos_def isOpTok_def)
next
  fix prev :: "'a Token" and out ops :: "'a Node list"
  have "[node2 KNum (value tok)] @ [] = postfix D (Lit (value tok))" by simp
  moreover have "\<forall>n \<in> set ([] :: 'a Node list). pendingOp p n" by simp
  moreover have "\<forall>rest. rpnTokens D ([tok] @ rest) prev out ops
      = rpnTokens D rest (last [tok]) (out @ [node2 KNum (value tok)]) ([] @ ops)"
    using assms by (simp add: rpnStep_def)
  ultimately show "\<exists>X P. X @ P = postfix D (Lit (value tok)) \<and> (\<forall>n \<in> set P. pendingOp p n)
             \<and> (\<forall>rest. rpnTokens D ([tok] @ rest) prev out ops
                        = rpnTokens D rest (last [tok]) (out @ X) (P @ ops))"
    by blast
qed

lemma parsesTo_paren:
  assumes lp: "t lp = LParen" and body: "parsesTo D 1 ts e" and rp: "t rp = RParen"
  shows "parsesTo D p (lp # ts @ [rp]) e"
proof (rule parsesToI)
  show "lp # ts @ [rp] \<noteq> []" by simp
  show "\<not> isUnaryPos (t (last (lp # ts @ [rp])))" using rp by (simp add: isUnaryPos_def isOpTok_def)
next
  fix prev :: "'a Token" and out ops :: "'a Node list"
  assume cx: "ctx p ops"
  let ?lp = "node3 KOp (dzero D) ''(''"
  have lpn: "isLParenNode ?lp" by (simp add: isLParenNode_def node3_def)
  have u: "isUnaryPos (t lp)" using lp by (simp add: isUnaryPos_def)
  have cx1: "ctx 1 (?lp # ops)" using cx by (rule ctx_lparen)
  from parsesToE [OF body u cx1, of out]
  obtain X P where XP: "X @ P = postfix D e" and pend: "\<forall>n \<in> set P. pendingOp 1 n"
    and run: "\<And>rest. rpnTokens D (ts @ rest) lp out (?lp # ops)
                 = rpnTokens D rest (last ts) (out @ X) (P @ ?lp # ops)"
    by auto
  have nf: "\<forall>n \<in> set ops. k n \<noteq> KFunc" using cx by (simp add: ctx_def)
  have close: "rpnStep D rp (last ts) (out @ X) (P @ ?lp # ops) = Inr (out @ postfix D e, ops)"
    using rp popToLParen_pending [OF pend lpn, of "out @ X" ops] XP nf
    by (cases ops) (simp_all add: rpnStep_def)
  have "\<forall>rest. rpnTokens D ((lp # ts @ [rp]) @ rest) prev out ops
      = rpnTokens D rest (last (lp # ts @ [rp])) (out @ postfix D e) ([] @ ops)"
    using lp run [of "rp # _"] close by (simp add: rpnStep_def)
  moreover have "postfix D e @ [] = postfix D e" by simp
  moreover have "\<forall>n \<in> set ([] :: 'a Node list). pendingOp p n" by simp
  ultimately show "\<exists>X P. X @ P = postfix D e \<and> (\<forall>n \<in> set P. pendingOp p n)
             \<and> (\<forall>rest. rpnTokens D ((lp # ts @ [rp]) @ rest) prev out ops
                        = rpnTokens D rest (last (lp # ts @ [rp])) (out @ X) (P @ ops))"
    by blast
qed

lemma parsesTo_neg:
  assumes m: "t m = Minus" and body: "parsesTo D 4 ts e"
  shows "parsesTo D 4 (m # ts) (Neg e)"
proof (rule parsesToI)
  from parsesTo_last [OF body] have ts: "ts \<noteq> []" "\<not> isUnaryPos (t (last ts))" by auto
  show "m # ts \<noteq> []" by simp
  show "\<not> isUnaryPos (t (last (m # ts)))" using ts by simp
  fix prev :: "'a Token" and out ops :: "'a Node list"
  assume up: "isUnaryPos (t prev)" and cx: "ctx 4 ops"
  let ?n = "node3 KOp (dzero D) ''u-''"
  have oi: "OP ''u-'' = Some (mkOp 4 True 1)" by (simp add: OP_def)
  from cx oi have "stopsAt (mkOp 4 True 1) ops" by (auto simp: ctx_def mkOp_def)
  then have pop: "popOps (mkOp 4 True 1) out ops = (out, ops)" by (rule popOps_stops)
  have step: "rpnStep D m prev out ops = Inr (out, ?n # ops)"
    using m up oi pop by (simp add: rpnStep_def isOpTok_def opSym_def)
  have "\<forall>opname' oi'. OP opname' = Some oi' \<and> 4 \<le> prec oi' \<longrightarrow> \<not> wouldPop oi' (mkOp 4 True 1)"
    by (auto dest!: OP_cases simp: wouldPop_def mkOp_def)
  from ctx_push [OF cx oi this] have cx1: "ctx 4 (?n # ops)" .
  have u: "isUnaryPos (t m)" using m by (simp add: isUnaryPos_def isOpTok_def)
  from parsesToE [OF body u cx1, of out]
  obtain X P where XP: "X @ P = postfix D e" and pend: "\<forall>n \<in> set P. pendingOp 4 n"
    and run: "\<And>rest. rpnTokens D (ts @ rest) m out (?n # ops)
                 = rpnTokens D rest (last ts) (out @ X) (P @ ?n # ops)"
    by auto
  have "X @ (P @ [?n]) = postfix D (Neg e)" using XP by simp
  moreover have "\<forall>n \<in> set (P @ [?n]). pendingOp 4 n"
    using pend oi by (auto simp: pendingOp_def node3_def mkOp_def)
  moreover have "\<forall>rest. rpnTokens D ((m # ts) @ rest) prev out ops
      = rpnTokens D rest (last (m # ts)) (out @ X) ((P @ [?n]) @ ops)"
    using step run ts by simp
  ultimately show "\<exists>X P. X @ P = postfix D (Neg e) \<and> (\<forall>n \<in> set P. pendingOp 4 n)
             \<and> (\<forall>rest. rpnTokens D ((m # ts) @ rest) prev out ops
                        = rpnTokens D rest (last (m # ts)) (out @ X) (P @ ops))"
    by blast
qed

lemma parsesTo_bin:
  assumes L: "parsesTo D pl ls l" and R: "parsesTo D pr rs r"
    and c: "isOpTok (t c)" "opSym (t c) = binSym b"
    and oi: "OP (binSym b) = Some oi" "p \<le> prec oi"
    and pl: "p \<le> pl" "\<forall>topi. pl \<le> prec topi \<longrightarrow> wouldPop oi topi"
    and pr: "p \<le> pr"
      "\<forall>opname' oi'. OP opname' = Some oi' \<and> pr \<le> prec oi' \<longrightarrow> \<not> wouldPop oi' oi"
  shows "parsesTo D p (ls @ c # rs) (Bin b l r)"
proof (rule parsesToI)
  from parsesTo_last [OF L] have ls: "ls \<noteq> []" "\<not> isUnaryPos (t (last ls))" by auto
  from parsesTo_last [OF R] have rs: "rs \<noteq> []" "\<not> isUnaryPos (t (last rs))" by auto
  have lst: "last (ls @ c # rs) = last rs" using rs by simp
  show "ls @ c # rs \<noteq> []" by simp
  show "\<not> isUnaryPos (t (last (ls @ c # rs)))" using lst rs by simp
  fix prev :: "'a Token" and out ops :: "'a Node list"
  assume up: "isUnaryPos (t prev)" and cx: "ctx p ops"
  let ?n = "node3 KOp (dzero D) (binSym b)"
  from cx pl(1) have cxl: "ctx pl ops" by (rule ctx_mono)
  from parsesToE [OF L up cxl, of out]
  obtain X1 P1 where XP1: "X1 @ P1 = postfix D l" and pend1: "\<forall>n \<in> set P1. pendingOp pl n"
    and run1: "\<And>rest. rpnTokens D (ls @ rest) prev out ops
                 = rpnTokens D rest (last ls) (out @ X1) (P1 @ ops)"
    by auto
  from cx oi have st: "stopsAt oi ops" by (auto simp: ctx_def)
  have pop: "popOps oi (out @ X1) (P1 @ ops) = (out @ postfix D l, ops)"
    using popOps_pending [OF pend1 pl(2) st, of "out @ X1"] XP1 by simp
  have kinds: "t c \<noteq> Number" "t c \<noteq> Ident" "t c \<noteq> Comma" "t c \<noteq> LParen" "t c \<noteq> RParen"
    "t c \<noteq> Assign"
    using c(1) by (auto simp: isOpTok_def)
  have bs: "binSym b \<noteq> ''-'' \<or> \<not> isUnaryPos (t (last ls))" using ls by simp
  have step: "rpnStep D c (last ls) (out @ X1) (P1 @ ops) = Inr (out @ postfix D l, ?n # ops)"
    using kinds c ls(2) oi(1) pop by (simp add: rpnStep_def)
  from ctx_push [OF cx oi(1) pr(2)] have cxr: "ctx pr (?n # ops)" .
  have u: "isUnaryPos (t c)" using c(1) by (simp add: isUnaryPos_def)
  from parsesToE [OF R u cxr, of "out @ postfix D l"]
  obtain X2 P2 where XP2: "X2 @ P2 = postfix D r" and pend2: "\<forall>n \<in> set P2. pendingOp pr n"
    and run2: "\<And>rest. rpnTokens D (rs @ rest) c (out @ postfix D l) (?n # ops)
                 = rpnTokens D rest (last rs) ((out @ postfix D l) @ X2) (P2 @ ?n # ops)"
    by auto
  have "(postfix D l @ X2) @ (P2 @ [?n]) = postfix D (Bin b l r)" using XP2 by simp
  moreover have "\<forall>n \<in> set (P2 @ [?n]). pendingOp p n"
    using pend2 pr(1) oi by (auto simp: pendingOp_def node3_def)
  moreover have "\<forall>rest. rpnTokens D ((ls @ c # rs) @ rest) prev out ops
      = rpnTokens D rest (last (ls @ c # rs)) (out @ postfix D l @ X2) ((P2 @ [?n]) @ ops)"
    using run1 [of "c # rs @ _"] step run2 lst by simp
  ultimately show "\<exists>X P. X @ P = postfix D (Bin b l r) \<and> (\<forall>n \<in> set P. pendingOp p n)
             \<and> (\<forall>rest. rpnTokens D ((ls @ c # rs) @ rest) prev out ops
                        = rpnTokens D rest (last (ls @ c # rs)) (out @ X) (P @ ops))"
    by blast
qed

lemma wouldPop_left:
  "\<forall>topi. p \<le> prec topi \<longrightarrow> wouldPop (mkOp p False a) topi"
  by (simp add: wouldPop_def mkOp_def)

lemma wouldPop_right:
  "\<forall>topi. p + 1 \<le> prec topi \<longrightarrow> wouldPop (mkOp p True a) topi"
  by (simp add: wouldPop_def mkOp_def)

lemma not_wouldPop_higher:
  "\<forall>opname' oi'. OP opname' = Some oi' \<and> p + 1 \<le> prec oi' \<longrightarrow> \<not> wouldPop oi' (mkOp p ra a)"
  by (auto dest!: OP_cases simp: wouldPop_def mkOp_def)

lemma not_wouldPop_pow:
  "\<forall>opname' oi'. OP opname' = Some oi' \<and> 3 \<le> prec oi' \<longrightarrow> \<not> wouldPop oi' (mkOp 3 True 2)"
  by (auto dest!: OP_cases simp: wouldPop_def mkOp_def)

lemma calcExpr_parsesTo: "calcExpr lv toks e \<Longrightarrow> parsesTo D (int lv) toks e"
proof (induction rule: calcExpr.induct)
  case (num tok)
  then show ?case by (rule parsesTo_num)
next
  case (paren lp ts e rp)
  then show ?case using parsesTo_paren [of lp D ts e rp] by simp
next
  case (neg m ts e)
  then show ?case using parsesTo_neg [of m D ts e] by simp
next
  case (pow ls l c rs r)
  have oi: "OP (binSym OpPow) = Some (mkOp 3 True 2)" by (simp add: OP_def)
  from parsesTo_bin [of D 4 ls l 3 rs r c OpPow "mkOp 3 True 2" 3]
    pow.IH pow.hyps(2) oi wouldPop_right [of 3 2] not_wouldPop_pow
  show ?case by (simp add: isOpTok_def opSym_def mkOp_def)
next
  case (mul ls l c rs r)
  have oi: "OP (binSym OpMul) = Some (mkOp 2 False 2)" by (simp add: OP_def)
  from parsesTo_bin [of D 2 ls l 3 rs r c OpMul "mkOp 2 False 2" 2]
    mul.IH mul.hyps(2) oi wouldPop_left [of 2 2] not_wouldPop_higher [of 2 False 2]
  show ?case by (simp add: isOpTok_def opSym_def mkOp_def)
next
  case (div ls l c rs r)
  have oi: "OP (binSym OpDiv) = Some (mkOp 2 False 2)" by (simp add: OP_def)
  from parsesTo_bin [of D 2 ls l 3 rs r c OpDiv "mkOp 2 False 2" 2]
    div.IH div.hyps(2) oi wouldPop_left [of 2 2] not_wouldPop_higher [of 2 False 2]
  show ?case by (simp add: isOpTok_def opSym_def mkOp_def)
next
  case (add ls l c rs r)
  have oi: "OP (binSym OpAdd) = Some (mkOp 1 False 2)" by (simp add: OP_def)
  from parsesTo_bin [of D 1 ls l 2 rs r c OpAdd "mkOp 1 False 2" 1]
    add.IH add.hyps(2) oi wouldPop_left [of 1 2] not_wouldPop_higher [of 1 False 2]
  show ?case by (simp add: isOpTok_def opSym_def mkOp_def)
next
  case (sub ls l c rs r)
  have oi: "OP (binSym OpSub) = Some (mkOp 1 False 2)" by (simp add: OP_def)
  from parsesTo_bin [of D 1 ls l 2 rs r c OpSub "mkOp 1 False 2" 1]
    sub.IH sub.hyps(2) oi wouldPop_left [of 1 2] not_wouldPop_higher [of 1 False 2]
  show ?case by (simp add: isOpTok_def opSym_def mkOp_def)
next
  case (up lv ts e)
  then show ?case using parsesTo_up [of D "int (Suc lv)" ts e "int lv"] by simp
qed

lemma rpnTokens_calcExpr:
  assumes "calcExpr 1 toks e"
  shows "rpnTokens D toks (mkToken End (dzero D) []) [] [] = Inr (postfix D e)"
proof -
  have u: "isUnaryPos (t (mkToken End (dzero D) []))" by (simp add: isUnaryPos_def mkToken_def)
  have cx: "ctx 1 ([] :: 'a Node list)" by (simp add: ctx_def stopsAt_def)
  from calcExpr_parsesTo [OF assms, of D] have p: "parsesTo D 1 toks e" by simp
  from parsesToE [OF p u cx, of "[]"]
  obtain X P where XP: "X @ P = postfix D e" and pend: "\<forall>n \<in> set P. pendingOp 1 n"
    and run: "\<And>rest. rpnTokens D (toks @ rest) (mkToken End (dzero D) []) [] []
                 = rpnTokens D rest (last toks) ([] @ X) (P @ [])"
    by auto
  from run [of "[]"] rpnFinish_pending [OF pend, of X] XP show ?thesis by simp
qed

subsection \<open>Operator precedence: the normaliser on a line without identifiers\<close>

lemma plain_append:
  "plain (a @ b) \<longleftrightarrow>
     plain a \<and> plain b \<and> (a \<noteq> [] \<and> b \<noteq> [] \<longrightarrow> \<not> (t (last a) = Number \<and> t (hd b) = LParen))"
proof (induction a)
  case Nil
  show ?case by simp
next
  case (Cons x a)
  show ?case
  proof (cases a)
    case Nil
    then show ?thesis by (cases b) auto
  next
    case (Cons y a')
    with Cons.IH show ?thesis by auto
  qed
qed

lemma calcExpr_plain: "calcExpr lv toks e \<Longrightarrow> toks \<noteq> [] \<and> plain toks"
proof (induction rule: calcExpr.induct)
  case (num tok)
  then show ?case by simp
next
  case (paren lp ts e rp)
  then show ?case by (simp add: plain_append)
next
  case (neg m ts e)
  then show ?case by simp
next
  case (pow ls l c rs r)
  then show ?case by (simp add: plain_append)
next
  case (mul ls l c rs r)
  then show ?case by (simp add: plain_append)
next
  case (div ls l c rs r)
  then show ?case by (simp add: plain_append)
next
  case (add ls l c rs r)
  then show ?case by (simp add: plain_append)
next
  case (sub ls l c rs r)
  then show ?case by (simp add: plain_append)
next
  case (up lv ts e)
  then show ?case by simp
qed

lemma preprocessLoop_skip:
  "\<forall>c \<in> set pre. \<not> isIdentStart c \<Longrightarrow> preprocessLoop (pre @ r) out = preprocessLoop r (out @ pre)"
  by (induction pre arbitrary: out) (simp_all add: isIdentStart_def)

lemma scanMantissa_split:
  "scanMantissa b cs = (m, r) \<Longrightarrow> cs = m @ r \<and> (\<forall>ch \<in> set m. isdigit ch \<or> ch = CHR ''.'')"
proof (induction cs arbitrary: b m r)
  case Nil
  then show ?case by simp
next
  case (Cons c cs)
  show ?case
  proof (cases "isdigit c \<or> (\<not> b \<and> c = CHR ''.'')")
    case True
    obtain m' r' where mr: "scanMantissa (if c = CHR ''.'' then True else b) cs = (m', r')"
      by (cases "scanMantissa (if c = CHR ''.'' then True else b) cs") auto
    from Cons.prems True mr have "m = c # m'" "r = r'" by auto
    with Cons.IH [OF mr] True show ?thesis by auto
  next
    case False
    with Cons.prems show ?thesis by simp
  qed
qed

lemma takeWhile_dropWhile_digits:
  "dropWhile isdigit xs = [] \<or> \<not> isdigit (hd (dropWhile isdigit xs))"
  by (metis hd_dropWhile)

lemma scanExponent_split:
  assumes "scanExponent r = (ex, s')"
  shows "r = ex @ s' \<and> expShape ex s'"
proof (cases "ex = []")
  case True
  with assms have "s' = r"
    by (auto simp: scanExponent_def split: list.splits if_splits)
  with True show ?thesis by (simp add: expShape_def)
next
  case False
  from assms False obtain mk r1 where r: "r = mk # r1" and mk: "mk = CHR ''e'' \<or> mk = CHR ''E''"
    by (cases r) (auto simp: scanExponent_def split: if_splits)
  define sg where "sg = (case r1 of [] \<Rightarrow> [] | c' # r2 \<Rightarrow> if c' = CHR ''+'' \<or> c' = CHR ''-'' then [c'] else [])"
  define r2 where "r2 = (case r1 of [] \<Rightarrow> r1 | c' # r2 \<Rightarrow> if c' = CHR ''+'' \<or> c' = CHR ''-'' then r2 else r1)"
  have sp: "(case r1 of [] \<Rightarrow> ([], r1)
             | c' # r2 \<Rightarrow> if c' = CHR ''+'' \<or> c' = CHR ''-'' then ([c'], r2) else ([], r1)) = (sg, r2)"
    by (simp add: sg_def r2_def split: list.splits)
  have r1: "r1 = sg @ r2" by (simp add: sg_def r2_def split: list.splits)
  have sgs: "sg = [] \<or> sg = ''+'' \<or> sg = ''-''" by (auto simp: sg_def split: list.splits)
  from assms r mk sp False have ex: "ex = mk # sg @ takeWhile isdigit r2"
    and s': "s' = dropWhile isdigit r2" and ne: "takeWhile isdigit r2 \<noteq> []"
    by (auto simp: scanExponent_def split: if_splits)
  have "r = ex @ s'" using r r1 ex s' by simp
  moreover have "expShape ex s'"
    unfolding expShape_def
    using ex mk sgs ne s' takeWhile_dropWhile_digits [of r2]
    by (metis set_takeWhileD)
  ultimately show ?thesis by simp
qed

lemma next_End: "next D s = Inr (tok, s') \<Longrightarrow> t tok = End \<Longrightarrow> dropWhile isspace s = []"
  by (cases "dropWhile isspace s")
    (auto simp: next_def mkToken_def split: if_splits prod.splits)

lemma next_punct:
  assumes "next D s = Inr (tok, s')" and "t tok \<noteq> Number" and "t tok \<noteq> Ident" and "t tok \<noteq> End"
  shows "\<exists>c. dropWhile isspace s = c # s' \<and> \<not> isIdentStart c"
proof (cases "dropWhile isspace s")
  case Nil
  with assms show ?thesis by (auto simp: next_def mkToken_def)
next
  case (Cons c cs)
  with assms show ?thesis
    by (auto simp: next_def mkToken_def split: if_splits prod.splits)
qed

lemma next_Number:
  assumes "next D s = Inr (tok, s')" and "t tok = Number"
  obtains c m ex where "dropWhile isspace s = c # m @ ex @ s'" and "isdigit c \<or> c = CHR ''.''"
    and "\<forall>ch \<in> set m. isdigit ch \<or> ch = CHR ''.''" and "expShape ex s'"
proof (cases "dropWhile isspace s")
  case Nil
  with assms show ?thesis by (auto simp: next_def mkToken_def)
next
  case (Cons c cs)
  show ?thesis
  proof (cases "isdigit c \<or> c = CHR ''.''")
    case True
    obtain m r where mr: "scanMantissa (c = CHR ''.'') cs = (m, r)"
      by (cases "scanMantissa (c = CHR ''.'') cs") auto
    obtain ex r' where er: "scanExponent r = (ex, r')"
      by (cases "scanExponent r") auto
    from assms(1) Cons True mr er have "s' = r'" by (simp add: next_def)
    with scanMantissa_split [OF mr] scanExponent_split [OF er]
    have "cs = m @ ex @ s'" and m: "\<forall>ch \<in> set m. isdigit ch \<or> ch = CHR ''.''"
      and sh: "expShape ex s'" by simp_all
    with Cons have "dropWhile isspace s = c # m @ ex @ s'" by simp
    from that [OF this True m sh] show ?thesis .
  next
    case False
    with assms Cons show ?thesis
      by (auto simp: next_def mkToken_def split: if_splits)
  qed
qed

lemma tokenize_Nil:
  assumes "tokenize D s = Inr []"
  shows "\<forall>c \<in> set s. isspace c"
proof -
  from assms obtain tok s' where n: "next D s = Inr (tok, s')" and e: "t tok = End"
    by (auto simp: tokenize.simps [of D s] split: sum.splits prod.splits if_splits)
  from next_End [OF n e] show ?thesis by simp
qed

lemma tokenize_Cons:
  assumes "tokenize D s = Inr (tok # toks)"
  shows "\<exists>s'. next D s = Inr (tok, s') \<and> t tok \<noteq> End \<and> tokenize D s' = Inr toks"
  using assms
  by (auto simp: tokenize.simps [of D s] split: sum.splits prod.splits if_splits)

lemma plainStart_tokens:
  assumes tk: "tokenize D s = Inr toks"
    and hd: "toks = [] \<or> (t (hd toks) \<noteq> Ident \<and> t (hd toks) \<noteq> LParen)"
  shows "plainStart s"
proof (cases toks)
  case Nil
  with tk have sp: "\<forall>c \<in> set s. isspace c" using tokenize_Nil by blast
  then have "dropWhile isspace s = []" by simp
  moreover have "s = [] \<or> \<not> isIdentStart (hd s)"
    using sp by (cases s) (auto simp: isIdentStart_def isalpha_def isspace_def)
  ultimately show ?thesis by (simp add: plainStart_def)
next
  case (Cons tok toks')
  with tk obtain s' where n: "next D s = Inr (tok, s')" using tokenize_Cons by blast
  from hd Cons have ty: "t tok \<noteq> Ident" "t tok \<noteq> LParen" by auto
  have a: "s = [] \<or> \<not> isIdentStart (hd s)"
  proof (cases s)
    case Nil
    then show ?thesis by simp
  next
    case (Cons c cs)
    show ?thesis
    proof (cases "isIdentStart c")
      case True
      then have "\<not> isspace c" "\<not> isdigit c" "c \<noteq> CHR ''.''"
        by (auto simp: isIdentStart_def isalpha_def isspace_def isdigit_def)
      with True Cons n have "t tok = Ident" by (auto simp: next_def mkToken_def)
      with ty show ?thesis by simp
    next
      case False
      with Cons show ?thesis by simp
    qed
  qed
  have b: "\<not> (dropWhile isspace s \<noteq> [] \<and> hd (dropWhile isspace s) = CHR ''('')"
  proof
    assume "dropWhile isspace s \<noteq> [] \<and> hd (dropWhile isspace s) = CHR ''(''"
    then obtain cs where "dropWhile isspace s = CHR ''('' # cs"
      by (cases "dropWhile isspace s") auto
    with n have "t tok = LParen"
      by (auto simp: next_def mkToken_def isdigit_def isIdentStart_def isalpha_def)
    with ty show False by simp
  qed
  from a b show ?thesis by (simp add: plainStart_def)
qed

lemma isdigit_isIdentChar: "isdigit c \<Longrightarrow> isIdentChar c \<and> \<not> isIdentStart c \<and> \<not> isspace c"
  by (auto simp: isdigit_def isIdentChar_def isalnum_def isIdentStart_def isalpha_def isspace_def)

lemma preprocessLoop_nocall:
  assumes "isalpha c \<or> c = CHR ''_''"
    and "\<not> (dropWhile isspace (dropWhile (\<lambda>x. isalnum x \<or> x = CHR ''_'') cs) \<noteq> []
      \<and> hd (dropWhile isspace (dropWhile (\<lambda>x. isalnum x \<or> x = CHR ''_'') cs)) = CHR ''('')"
  shows "preprocessLoop (c # cs) out = preprocessLoop cs (out @ [c])"
proof -
  define r where "r = dropWhile isspace (dropWhile (\<lambda>x. isalnum x \<or> x = CHR ''_'') cs)"
  have r: "\<not> (r \<noteq> [] \<and> hd r = CHR ''('')" unfolding r_def by (rule assms(2))
  have "preprocessLoop (c # cs) out =
      (if r \<noteq> [] \<and> hd r = CHR ''('' then
              (case scanCall 0 [] [] r of
                 (depth, args, rest) \<Rightarrow>
                   if depth \<noteq> 0 then Inl UnbalancedCallParens
                   else preprocessLoop rest (out @ ''('' @ joinArgs args @ '') ''
                       @ c # takeWhile (\<lambda>x. isalnum x \<or> x = CHR ''_'') cs))
            else preprocessLoop cs (out @ [c]))"
    using assms(1) unfolding r_def by (simp only: preprocessLoop.simps Let_def if_True)
  also have "\<dots> = preprocessLoop cs (out @ [c])" using r by (simp only: if_False)
  finally show ?thesis .
qed

lemma preprocessLoop_exponent:
  assumes sh: "expShape ex s'" and ps: "plainStart s'"
  shows "preprocessLoop (ex @ s') out = preprocessLoop s' (out @ ex)"
proof (cases "ex = []")
  case True
  then show ?thesis by simp
next
  case False
  with sh obtain mk sg ds where ex: "ex = mk # sg @ ds" and mk: "mk = CHR ''e'' \<or> mk = CHR ''E''"
    and sg: "sg = [] \<or> sg = ''+'' \<or> sg = ''-''" and ds: "ds \<noteq> []" "\<forall>ch \<in> set ds. isdigit ch"
    and s': "s' = [] \<or> \<not> isdigit (hd s')"
    by (auto simp: expShape_def)
  have al: "isalpha mk" using mk by (auto simp: isalpha_def)
  have "\<forall>c \<in> set sg. \<not> isIdentStart c"
    using sg by (auto simp: isIdentStart_def isalpha_def)
  moreover have "\<forall>c \<in> set ds. \<not> isIdentStart c"
    using ds(2) isdigit_isIdentChar by blast
  ultimately have skip: "\<forall>c \<in> set (sg @ ds). \<not> isIdentStart c" by auto
  let ?idc = "\<lambda>x. isalnum x \<or> x = CHR ''_''"
  have idc: "?idc = isIdentChar" by (auto simp: isIdentChar_def)
  have nocall: "\<not> (dropWhile isspace (dropWhile ?idc (sg @ ds @ s')) \<noteq> []
      \<and> hd (dropWhile isspace (dropWhile ?idc (sg @ ds @ s'))) = CHR ''('')"
  proof (cases "sg = []")
    case True
    have "dropWhile isIdentChar (ds @ s') = dropWhile isIdentChar s'"
      using ds(2) by (simp add: dropWhile_append isdigit_isIdentChar)
    also have "\<dots> = s'"
    proof (cases s')
      case Nil
      then show ?thesis by simp
    next
      case (Cons c cs)
      with s' ps have "\<not> isdigit c" "\<not> isIdentStart c" by (auto simp: plainStart_def)
      then have "\<not> isIdentChar c"
        by (auto simp: isIdentChar_def isIdentStart_def isalnum_def)
      with Cons show ?thesis by simp
    qed
    finally show ?thesis using True ps by (simp add: idc plainStart_def)
  next
    case False
    with sg obtain c where c: "sg = [c]" "c = CHR ''+'' \<or> c = CHR ''-''" by auto
    then have "\<not> isIdentChar c" "\<not> isspace c" "c \<noteq> CHR ''(''"
      by (auto simp: isIdentChar_def isalnum_def isalpha_def isdigit_def isspace_def)
    with c show ?thesis by (simp add: idc)
  qed
  have "preprocessLoop (mk # sg @ ds @ s') out = preprocessLoop (sg @ ds @ s') (out @ [mk])"
    using al nocall by (intro preprocessLoop_nocall) blast+
  also have "\<dots> = preprocessLoop s' ((out @ [mk]) @ sg @ ds)"
    using preprocessLoop_skip [OF skip, of s' "out @ [mk]"] by simp
  finally show ?thesis using ex by simp
qed

lemma dropWhile_split: "dropWhile P s = r \<Longrightarrow> \<exists>ws. s = ws @ r \<and> (\<forall>c \<in> set ws. P c)"
proof -
  assume a: "dropWhile P s = r"
  have "s = takeWhile P s @ dropWhile P s" by simp
  with a have "s = takeWhile P s @ r" by simp
  moreover have "\<forall>c \<in> set (takeWhile P s). P c" by (auto dest: set_takeWhileD)
  ultimately show ?thesis by blast
qed

lemma mantissa_char_not_isIdentStart: "isdigit c \<or> c = CHR ''.'' \<Longrightarrow> \<not> isIdentStart c"
  by (auto simp: isIdentStart_def isalpha_def isdigit_def)

lemma isspace_not_isIdentStart: "isspace c \<Longrightarrow> \<not> isIdentStart c"
  by (auto simp: isIdentStart_def isalpha_def isspace_def)

lemma preprocessLoop_plain:
  "tokenize D s = Inr toks \<Longrightarrow> plain toks \<Longrightarrow> preprocessLoop s out = Inr (out @ s)"
proof (induction toks arbitrary: s out)
  case Nil
  from tokenize_Nil [OF Nil.prems(1)] have "\<forall>c \<in> set s. \<not> isIdentStart c"
    using isspace_not_isIdentStart by blast
  from preprocessLoop_skip [OF this, of "[]" out] show ?case by simp
next
  case (Cons tok toks)
  from tokenize_Cons [OF Cons.prems(1)] obtain s' where n: "next D s = Inr (tok, s')"
    and ne: "t tok \<noteq> End" and tk: "tokenize D s' = Inr toks" by blast
  from Cons.prems(2) have ty: "t tok \<noteq> Ident" and pl: "plain toks"
    and np: "t tok = Number \<longrightarrow> toks = [] \<or> t (hd toks) \<noteq> LParen" by auto
  note IH = Cons.IH [OF tk pl]
  show ?case
  proof (cases "t tok = Number")
    case True
    from next_Number [OF n True] obtain c m ex where dw: "dropWhile isspace s = c # m @ ex @ s'"
      and c: "isdigit c \<or> c = CHR ''.''" and m: "\<forall>ch \<in> set m. isdigit ch \<or> ch = CHR ''.''"
      and sh: "expShape ex s'" .
    from dropWhile_split [OF dw] obtain ws where s: "s = ws @ c # m @ ex @ s'"
      and ws: "\<forall>ch \<in> set ws. isspace ch" by blast
    have "toks = [] \<or> (t (hd toks) \<noteq> Ident \<and> t (hd toks) \<noteq> LParen)"
      using np True pl by (cases toks) auto
    from plainStart_tokens [OF tk this] have ps: "plainStart s'" .
    have "\<not> isIdentStart c" using c by (rule mantissa_char_not_isIdentStart)
    moreover have "\<forall>ch \<in> set m. \<not> isIdentStart ch"
      using m mantissa_char_not_isIdentStart by blast
    moreover have "\<forall>ch \<in> set ws. \<not> isIdentStart ch"
      using ws isspace_not_isIdentStart by blast
    ultimately have skip: "\<forall>ch \<in> set (ws @ c # m). \<not> isIdentStart ch" by auto
    have "preprocessLoop s out = preprocessLoop ((ws @ c # m) @ ex @ s') out"
      unfolding s by simp
    also have "\<dots> = preprocessLoop (ex @ s') (out @ ws @ c # m)"
      by (rule preprocessLoop_skip [OF skip])
    also have "\<dots> = preprocessLoop s' ((out @ ws @ c # m) @ ex)"
      by (rule preprocessLoop_exponent [OF sh ps])
    also have "\<dots> = Inr (((out @ ws @ c # m) @ ex) @ s')" by (rule IH)
    also have "\<dots> = Inr (out @ s)" unfolding s by simp
    finally show ?thesis .
  next
    case False
    from next_punct [OF n False ty ne] obtain c where dw: "dropWhile isspace s = c # s'"
      and c: "\<not> isIdentStart c" by blast
    from dropWhile_split [OF dw] obtain ws where s: "s = ws @ c # s'"
      and ws: "\<forall>ch \<in> set ws. isspace ch" by blast
    have "\<forall>ch \<in> set ws. \<not> isIdentStart ch"
      using ws isspace_not_isIdentStart by blast
    with c have skip: "\<forall>ch \<in> set (ws @ [c]). \<not> isIdentStart ch" by auto
    have "preprocessLoop s out = preprocessLoop ((ws @ [c]) @ s') out"
      unfolding s by simp
    also have "\<dots> = preprocessLoop s' (out @ ws @ [c])"
      by (rule preprocessLoop_skip [OF skip])
    also have "\<dots> = Inr ((out @ ws @ [c]) @ s')" by (rule IH)
    also have "\<dots> = Inr (out @ s)" unfolding s by simp
    finally show ?thesis .
  qed
qed

subsection \<open>Operator precedence: the pipeline\<close>

lemma claimedExpr_atom: "t tok = Number \<Longrightarrow> value tok = v \<Longrightarrow> claimedExpr 5 [tok] (Lit v)"
  using claimedExpr.num [of tok] by simp

lemma calcExpr_atom: "t tok = Number \<Longrightarrow> value tok = v \<Longrightarrow> calcExpr 5 [tok] (Lit v)"
  using calcExpr.num [of tok] by simp

lemma claimedExpr_le:
  assumes "claimedExpr m ts e" and "n \<le> m"
  shows "claimedExpr n ts e"
  using assms(2,1) by (induction rule: inc_induct) (auto intro: claimedExpr.up)

lemma calcExpr_le:
  assumes "calcExpr m ts e" and "n \<le> m"
  shows "calcExpr n ts e"
  using assms(2,1) by (induction rule: inc_induct) (auto intro: calcExpr.up)

text \<open>
  C2, as the claim states it, fails, in two ways.

  With \<^verbatim>\<open>^\<close> above unary minus, the line \<^verbatim>\<open>-2^2\<close> is \<open>-(2^2)\<close>, which is \<open>-4\<close> in exact
  arithmetic. The pipeline returns \<open>(-2)^2\<close>, which is \<open>4\<close>: in the operator table unary
  minus has precedence 4 and \<^verbatim>\<open>^\<close> has 3.

  An expression without variables may call a function, and there the pipeline does not
  return the value of the call. The normaliser joins the arguments of a call by a space
  and does not rewrite a call inside an argument, so \<^verbatim>\<open>pow(-2,2)\<close> becomes \<^verbatim>\<open>(-2 2) pow\<close>
  and is \<open>pow(2,-2)\<close>, that is \<open>1/4\<close>, where \<open>pow\<close> of \<open>-2\<close> and \<open>2\<close> is \<open>4\<close>;
  \<^verbatim>\<open>pow(2,-1)\<close> becomes \<^verbatim>\<open>(2 -1) pow\<close> and fails with \<open>MissingArgument\<close>;
  \<^verbatim>\<open>pow(1+1,3)\<close> becomes \<^verbatim>\<open>(1+1 3) pow\<close> and is \<open>pow(1,1+3)\<close>, that is \<open>1\<close>, where
  \<open>pow\<close> of \<open>2\<close> and \<open>3\<close> is \<open>8\<close>; and \<^verbatim>\<open>sqrt(sqrt(16))\<close> fails with
  \<open>MissingArgument\<close>.
\<close>

theorem claimed_precedence_fails:
  "tokenize exactReal ''-2^2''
     = Inr [mkToken Minus 0 ''-'', mkToken Number 2 [], mkToken Caret 0 ''^'', mkToken Number 2 []]
   \<and> claimedExpr 1 [mkToken Minus (0::real) ''-'', mkToken Number 2 [], mkToken Caret 0 ''^'',
                 mkToken Number 2 []]
         (Neg (Bin OpPow (Lit 2) (Lit 2)))
   \<and> evalExpr exactReal (Neg (Bin OpPow (Lit 2) (Lit 2))) = Inr (- 4)
   \<and> evaluate exactReal ''-2^2'' emptyEnv = (Inr 4, emptyEnv)
   \<and> BF exactReal ''pow'' = Some (cpow exactReal)
   \<and> cpow exactReal (- 2) 2 = 4
   \<and> preprocessFuncCalls ''pow(-2,2)'' = Inr ''(-2 2) pow''
   \<and> evaluate exactReal ''pow(-2,2)'' emptyEnv = (Inr (1 / 4), emptyEnv)
   \<and> cpow exactReal 2 (- 1) = 1 / 2
   \<and> preprocessFuncCalls ''pow(2,-1)'' = Inr ''(2 -1) pow''
   \<and> evaluate exactReal ''pow(2,-1)'' emptyEnv = (Inl (MissingArgument ''pow''), emptyEnv)
   \<and> cpow exactReal (1 + 1) 3 = 8
   \<and> preprocessFuncCalls ''pow(1+1,3)'' = Inr ''(1+1 3) pow''
   \<and> evaluate exactReal ''pow(1+1,3)'' emptyEnv = (Inr 1, emptyEnv)
   \<and> preprocessFuncCalls ''sqrt(sqrt(16))'' = Inr ''(sqrt(16)) sqrt''
   \<and> evaluate exactReal ''sqrt(sqrt(16))'' emptyEnv = (Inl (MissingArgument ''sqrt''), emptyEnv)"
proof -
  have 1: "tokenize exactReal ''-2^2''
     = Inr [mkToken Minus 0 ''-'', mkToken Number 2 [], mkToken Caret 0 ''^'', mkToken Number 2 []]"
    by (simp add: tokenize.simps next_def scanExponent_def mkToken_def charDefs exactDefs)
  have two: "claimedExpr 5 [mkToken Number (2::real) []] (Lit 2)"
    by (rule claimedExpr_atom) (simp_all add: mkToken_def)
  have "claimedExpr 3 [mkToken Number (2::real) []] (Lit 2)"
    using claimedExpr_le [OF two, of 3] by simp
  from claimedExpr.pow [OF two _ this, of "mkToken Caret 0 ''^''"]
  have "claimedExpr 4 [mkToken Number (2::real) [], mkToken Caret 0 ''^'', mkToken Number 2 []]
      (Bin OpPow (Lit 2) (Lit 2))"
    by (simp add: mkToken_def)
  from claimedExpr_le [OF this, of 3]
  have "claimedExpr 3 [mkToken Number (2::real) [], mkToken Caret 0 ''^'', mkToken Number 2 []]
      (Bin OpPow (Lit 2) (Lit 2))"
    by simp
  from claimedExpr.neg [OF _ this, of "mkToken Minus 0 ''-''"]
  have "claimedExpr 3 [mkToken Minus (0::real) ''-'', mkToken Number 2 [], mkToken Caret 0 ''^'',
                 mkToken Number 2 []] (Neg (Bin OpPow (Lit 2) (Lit 2)))"
    by (simp add: mkToken_def)
  from claimedExpr_le [OF this, of 1]
  have 2: "claimedExpr 1 [mkToken Minus (0::real) ''-'', mkToken Number 2 [], mkToken Caret 0 ''^'',
                 mkToken Number 2 []] (Neg (Bin OpPow (Lit 2) (Lit 2)))"
    by simp
  have 3: "evalExpr exactReal (Neg (Bin OpPow (Lit 2) (Lit 2))) = Inr (- 4)"
    by (simp add: exactDefs)
  have 4: "evaluate exactReal ''-2^2'' emptyEnv = (Inr 4, emptyEnv)"
    by (simp add: pipelineDefs charDefs exactDefs)
  have 5: "BF exactReal ''pow'' = Some (cpow exactReal)"
    by (simp add: BF_def)
  have 6: "cpow exactReal (- 2) 2 = 4" "cpow exactReal 2 (- 1) = 1 / 2"
    "cpow exactReal (1 + 1) 3 = 8"
    by (simp_all add: exactDefs floor_minus_one_real power_int_def)
  have 7: "preprocessFuncCalls ''pow(-2,2)'' = Inr ''(-2 2) pow''"
    "preprocessFuncCalls ''pow(2,-1)'' = Inr ''(2 -1) pow''"
    "preprocessFuncCalls ''pow(1+1,3)'' = Inr ''(1+1 3) pow''"
    "preprocessFuncCalls ''sqrt(sqrt(16))'' = Inr ''(sqrt(16)) sqrt''"
    by (simp_all add: preprocessFuncCalls_def charDefs)
  have 8: "evaluate exactReal ''pow(-2,2)'' emptyEnv = (Inr (1 / 4), emptyEnv)"
    by (simp add: pipelineDefs charDefs exactDefs power_int_def power_divide)
  have 9: "evaluate exactReal ''pow(2,-1)'' emptyEnv = (Inl (MissingArgument ''pow''), emptyEnv)"
    by (simp add: pipelineDefs charDefs exactDefs)
  have 10: "evaluate exactReal ''pow(1+1,3)'' emptyEnv = (Inr 1, emptyEnv)"
    by (simp add: pipelineDefs charDefs exactDefs power_int_def)
  have 11: "evaluate exactReal ''sqrt(sqrt(16))'' emptyEnv
      = (Inl (MissingArgument ''sqrt''), emptyEnv)"
    by (simp add: pipelineDefs charDefs exactDefs)
  from 1 2 3 4 5 6 7 8 9 10 11 show ?thesis by blast
qed

text \<open>
  C2, amended. For every line whose tokens are an arithmetic expression made of number
  literals, the operators \<^verbatim>\<open>+ - * / ^\<close>, unary minus and parentheses only (no identifier:
  no variable and no function call), the result of the pipeline is the value of the
  expression under the precedence order of the operator table: unary minus highest (it
  applies to the number or parenthesised expression after it, also as the right operand
  of \<^verbatim>\<open>^\<close>), \<^verbatim>\<open>^\<close> next and right-associative, \<^verbatim>\<open>*\<close> and \<^verbatim>\<open>/\<close> next and
  left-associative, \<^verbatim>\<open>+\<close> and \<^verbatim>\<open>-\<close> lowest and left-associative. The environment is
  unchanged. Lines with a function call are left out: nothing is stated about them.
\<close>

theorem precedence_evaluation:
  assumes "tokenize D line = Inr toks" and "calcExpr 1 toks e"
  shows "evaluate D line env = (evalExpr D e, env)"
proof -
  from calcExpr_plain [OF assms(2)] have "plain toks" by simp
  from preprocessLoop_plain [OF assms(1) this, of "[]"]
  have pre: "preprocessFuncCalls line = Inr line" by (simp add: preprocessFuncCalls_def)
  have "toRPN D line = rpnTokens D toks (mkToken End (dzero D) []) [] []"
    unfolding toRPN_def by (rule toRPN_loop_tokens [OF assms(1)])
  also have "\<dots> = Inr (postfix D e)" by (rule rpnTokens_calcExpr [OF assms(2)])
  finally have rpn: "toRPN D line = Inr (postfix D e)" .
  show ?thesis by (simp add: evaluate_def pre rpn evalRPN_postfix)
qed

theorem precedence_evaluation_witness:
  "tokenize exactReal ''-2^2+1''
     = Inr [mkToken Minus 0 ''-'', mkToken Number 2 [], mkToken Caret 0 ''^'', mkToken Number 2 [],
            mkToken Plus 0 ''+'', mkToken Number 1 []]
   \<and> calcExpr 1 [mkToken Minus (0::real) ''-'', mkToken Number 2 [], mkToken Caret 0 ''^'',
                  mkToken Number 2 [], mkToken Plus 0 ''+'', mkToken Number 1 []]
         (Bin OpAdd (Bin OpPow (Neg (Lit 2)) (Lit 2)) (Lit 1))
   \<and> evaluate exactReal ''-2^2+1'' emptyEnv = (Inr 5, emptyEnv)"
proof -
  have 1: "tokenize exactReal ''-2^2+1''
     = Inr [mkToken Minus 0 ''-'', mkToken Number 2 [], mkToken Caret 0 ''^'', mkToken Number 2 [],
            mkToken Plus 0 ''+'', mkToken Number 1 []]"
    by (simp add: tokenize.simps next_def scanExponent_def mkToken_def charDefs exactDefs)
  have two: "calcExpr 5 [mkToken Number (2::real) []] (Lit 2)"
    by (rule calcExpr_atom) (simp_all add: mkToken_def)
  have one: "calcExpr 5 [mkToken Number (1::real) []] (Lit 1)"
    by (rule calcExpr_atom) (simp_all add: mkToken_def)
  have "calcExpr 4 [mkToken Number (2::real) []] (Lit 2)" using calcExpr_le [OF two, of 4] by simp
  from calcExpr.neg [OF _ this, of "mkToken Minus 0 ''-''"]
  have n: "calcExpr 4 [mkToken Minus (0::real) ''-'', mkToken Number 2 []] (Neg (Lit 2))"
    by (simp add: mkToken_def)
  have "calcExpr 3 [mkToken Number (2::real) []] (Lit 2)" using calcExpr_le [OF two, of 3] by simp
  from calcExpr.pow [OF n _ this, of "mkToken Caret 0 ''^''"]
  have "calcExpr 3 [mkToken Minus (0::real) ''-'', mkToken Number 2 [], mkToken Caret 0 ''^'',
      mkToken Number 2 []] (Bin OpPow (Neg (Lit 2)) (Lit 2))"
    by (simp add: mkToken_def)
  from calcExpr_le [OF this, of 1]
  have p: "calcExpr 1 [mkToken Minus (0::real) ''-'', mkToken Number 2 [], mkToken Caret 0 ''^'',
      mkToken Number 2 []] (Bin OpPow (Neg (Lit 2)) (Lit 2))"
    by simp
  have "calcExpr 2 [mkToken Number (1::real) []] (Lit 1)" using calcExpr_le [OF one, of 2] by simp
  from calcExpr.add [OF p _ this, of "mkToken Plus 0 ''+''"]
  have 2: "calcExpr 1 [mkToken Minus (0::real) ''-'', mkToken Number 2 [], mkToken Caret 0 ''^'',
                  mkToken Number 2 [], mkToken Plus 0 ''+'', mkToken Number 1 []]
         (Bin OpAdd (Bin OpPow (Neg (Lit 2)) (Lit 2)) (Lit 1))"
    by (simp add: mkToken_def)
  have v: "evalExpr exactReal (Bin OpAdd (Bin OpPow (Neg (Lit 2)) (Lit 2)) (Lit 1)) = Inr 5"
    by (simp add: exactDefs)
  from precedence_evaluation [OF 1 2, of emptyEnv] v
  have 3: "evaluate exactReal ''-2^2+1'' emptyEnv = (Inr 5, emptyEnv)" by simp
  from 1 2 3 show ?thesis by blast
qed

subsection \<open>Assignment lines\<close>

lemma rpnFinish_pending_append:
  "\<forall>n \<in> set P. pendingOp q n \<Longrightarrow> rpnFinish out (P @ Q) = rpnFinish (out @ P) Q"
  by (induction P arbitrary: out) (auto dest: pendingOp_not_lparen)

lemma postfix_first: "\<exists>v ns. postfix D e = node2 KNum v # ns"
  by (induction e) auto

lemma rpnTokens_assignment:
  assumes x: "t x = Ident" and a: "t a = Assign" and e: "calcExpr 1 toks e"
  shows "rpnTokens D (x # a # toks) (mkToken End (dzero D) []) [] []
           = Inr (node3 KVar (dzero D) (text x) # postfix D e @ [node1 D KAssign])"
proof -
  let ?v = "node3 KVar (dzero D) (text x)" and ?as = "node1 D KAssign"
  have u: "isUnaryPos (t a)" using a by (simp add: isUnaryPos_def)
  have cx: "ctx 1 [?as]" by (simp add: ctx_def stopsAt_def node1_def)
  from calcExpr_parsesTo [OF e, of D] have p: "parsesTo D 1 toks e" by simp
  from parsesToE [OF p u cx, of "[?v]"]
  obtain X P where XP: "X @ P = postfix D e" and pend: "\<forall>n \<in> set P. pendingOp 1 n"
    and run: "\<And>rest. rpnTokens D (toks @ rest) a [?v] [?as]
                 = rpnTokens D rest (last toks) ([?v] @ X) (P @ [?as])"
    by auto
  have fin: "rpnFinish ([?v] @ X) (P @ [?as]) = Inr (?v # postfix D e @ [?as])"
    using rpnFinish_pending_append [OF pend, of "[?v] @ X" "[?as]"] XP
    by (simp add: isLParenNode_def node1_def)
  have "rpnTokens D (x # a # toks) (mkToken End (dzero D) []) [] []
      = rpnTokens D toks a [?v] [?as]"
    using x a by (simp add: rpnStep_def)
  also have "\<dots> = Inr (?v # postfix D e @ [?as])" using run [of "[]"] fin by simp
  finally show ?thesis .
qed

lemma evalRPN_assignment_last:
  "evalRPN D (node3 KVar z name # postfix D e @ [node1 D KAssign]) env = (Inl InvalidAssignment, env)"
proof -
  obtain v ns where pf: "postfix D e = node2 KNum v # ns" using postfix_first [of D e] by blast
  show ?thesis
    by (simp add: evalRPN_def hasAssign_def pf node1_def node2_def node3_def)
qed

text \<open>
  C1. An assignment line \<^verbatim>\<open>name = expr\<close> should store the value of \<^verbatim>\<open>expr\<close> under
  \<^verbatim>\<open>name\<close> and return it. The code does not: \<^verbatim>\<open>toRPN\<close> pushes the assignment marker
  on the operator stack (line 105), so it reaches the output after the right-hand side,
  while \<^verbatim>\<open>evalRPN\<close> accepts it at index 1 only (line 172). The line \<^verbatim>\<open>x=5\<close>, the example
  of the program's own help text, becomes \<open>[x, 5, =]\<close> and is rejected with
  \<open>InvalidAssignment\<close>; the environment stays as it was. The same holds for every text
  whose tokens are an identifier, \<^verbatim>\<open>=\<close> and an expression without variables: \<^verbatim>\<open>toRPN\<close>
  returns the variable, the expression in postfix order and then the marker, and
  \<^verbatim>\<open>evalRPN\<close> rejects that sequence.
\<close>

theorem assignment_line_rejected:
  "toRPN D ''x=5'' = Inr [node3 KVar (dzero D) ''x'', node2 KNum (strtod D ''5''), node1 D KAssign]
   \<and> evaluate D ''x=5'' env = (Inl InvalidAssignment, env)
   \<and> (tokenize D line = Inr (x # a # toks) \<and> t x = Ident \<and> t a = Assign \<and> calcExpr 1 toks e \<longrightarrow>
        toRPN D line = Inr (node3 KVar (dzero D) (text x) # postfix D e @ [node1 D KAssign])
        \<and> evalRPN D (node3 KVar (dzero D) (text x) # postfix D e @ [node1 D KAssign]) env
            = (Inl InvalidAssignment, env))"
proof -
  have 1: "toRPN D ''x=5''
      = Inr [node3 KVar (dzero D) ''x'', node2 KNum (strtod D ''5''), node1 D KAssign]"
    by (simp add: pipelineDefs charDefs)
  have 2: "evaluate D ''x=5'' env = (Inl InvalidAssignment, env)"
    by (simp add: pipelineDefs charDefs)
  have 3: "tokenize D line = Inr (x # a # toks) \<and> t x = Ident \<and> t a = Assign \<and> calcExpr 1 toks e \<longrightarrow>
        toRPN D line = Inr (node3 KVar (dzero D) (text x) # postfix D e @ [node1 D KAssign])
        \<and> evalRPN D (node3 KVar (dzero D) (text x) # postfix D e @ [node1 D KAssign]) env
            = (Inl InvalidAssignment, env)"
  proof
    assume h: "tokenize D line = Inr (x # a # toks) \<and> t x = Ident \<and> t a = Assign \<and> calcExpr 1 toks e"
    then have tk: "tokenize D line = Inr (x # a # toks)" and x: "t x = Ident" and a: "t a = Assign"
      and e: "calcExpr 1 toks e" by simp_all
    have "toRPN D line = rpnTokens D (x # a # toks) (mkToken End (dzero D) []) [] []"
      unfolding toRPN_def by (rule toRPN_loop_tokens [OF tk])
    also have "\<dots> = Inr (node3 KVar (dzero D) (text x) # postfix D e @ [node1 D KAssign])"
      by (rule rpnTokens_assignment [OF x a e])
    finally show "toRPN D line = Inr (node3 KVar (dzero D) (text x) # postfix D e @ [node1 D KAssign])
        \<and> evalRPN D (node3 KVar (dzero D) (text x) # postfix D e @ [node1 D KAssign]) env
            = (Inl InvalidAssignment, env)"
      using evalRPN_assignment_last [of D "dzero D" "text x" e env] by simp
  qed
  from 1 2 3 show ?thesis by blast
qed

theorem assignment_line_rejected_witness:
  "tokenize exactReal ''y = 1+2''
     = Inr [mkToken Ident 0 ''y'', mkToken Assign 0 ''='', mkToken Number 1 [],
            mkToken Plus 0 ''+'', mkToken Number 2 []]
   \<and> calcExpr 1 [mkToken Number (1::real) [], mkToken Plus 0 ''+'', mkToken Number 2 []]
         (Bin OpAdd (Lit 1) (Lit 2))
   \<and> toRPN exactReal ''y = 1+2''
       = Inr [node3 KVar 0 ''y'', node2 KNum 1, node2 KNum 2, node3 KOp 0 ''+'',
              node1 exactReal KAssign]
   \<and> evaluate exactReal ''y = 1+2'' emptyEnv = (Inl InvalidAssignment, emptyEnv)
   \<and> evaluate exactReal ''x=5'' emptyEnv = (Inl InvalidAssignment, emptyEnv)"
proof -
  have 1: "tokenize exactReal ''y = 1+2''
     = Inr [mkToken Ident 0 ''y'', mkToken Assign 0 ''='', mkToken Number 1 [],
            mkToken Plus 0 ''+'', mkToken Number 2 []]"
    by (simp add: tokenize.simps next_def scanExponent_def mkToken_def charDefs exactDefs)
  have one: "calcExpr 5 [mkToken Number (1::real) []] (Lit 1)"
    by (rule calcExpr_atom) (simp_all add: mkToken_def)
  have two: "calcExpr 5 [mkToken Number (2::real) []] (Lit 2)"
    by (rule calcExpr_atom) (simp_all add: mkToken_def)
  from calcExpr.add [OF calcExpr_le [OF one, of 1] _ calcExpr_le [OF two, of 2],
      of "mkToken Plus 0 ''+''"]
  have 2: "calcExpr 1 [mkToken Number (1::real) [], mkToken Plus 0 ''+'', mkToken Number 2 []]
         (Bin OpAdd (Lit 1) (Lit 2))"
    by (simp add: mkToken_def)
  have i: "t (mkToken Ident (0::real) ''y'') = Ident" "t (mkToken Assign (0::real) ''='') = Assign"
    by (simp_all add: mkToken_def)
  from assignment_line_rejected [where D = exactReal and env = emptyEnv and line = "''y = 1+2''"
      and x = "mkToken Ident 0 ''y''" and a = "mkToken Assign 0 ''=''"
      and toks = "[mkToken Number (1::real) [], mkToken Plus 0 ''+'', mkToken Number 2 []]"
      and e = "Bin OpAdd (Lit 1) (Lit 2)"] 1 2 i
  have 3: "toRPN exactReal ''y = 1+2''
       = Inr [node3 KVar 0 ''y'', node2 KNum 1, node2 KNum 2, node3 KOp 0 ''+'',
              node1 exactReal KAssign]"
    and 5: "evaluate exactReal ''x=5'' emptyEnv = (Inl InvalidAssignment, emptyEnv)"
    by (simp_all add: mkToken_def exactReal_def)
  have 4: "evaluate exactReal ''y = 1+2'' emptyEnv = (Inl InvalidAssignment, emptyEnv)"
    by (simp add: pipelineDefs charDefs exactDefs)
  from 1 2 3 4 5 show ?thesis by blast
qed

end
